theory Spec2Isabelle
  imports Main "HOL-Library.Word"
begin

section \<open>Stream selection (TrackPlayer.get_best_stream)\<close>

text \<open>
  A \<open>TrackStream\<close> as the selector reads it: the two track flags set by
  \<open>setTracks(video, audio)\<close>, the codec string, the optional bitrate, the
  \<open>default_audio_track\<close> flag of the YouTube streams and the optional volume
  hint that the selector copies onto its result. Numbers are JavaScript numbers
  that hold integers here, so they are modelled as \<open>int\<close>.
\<close>

record stream =
  video :: bool
  audio :: bool
  codecs :: "string option"
  bitrate :: "int option"
  default_audio_track :: bool
  volume :: "int option"

text \<open>
  The stream collection is an array that also carries the volume hint
  (\<open>streams.volume\<close>) and answers \<open>expired()\<close>.
\<close>

record track_streams =
  entries :: "stream list"
  streams_volume :: "int option"
  expired :: bool

text \<open>\<open>b.bitrate ?? 0\<close>\<close>

definition bitrate_or0 :: "stream \<Rightarrow> int" where
  "bitrate_or0 s = (case bitrate s of None \<Rightarrow> 0 | Some b \<Rightarrow> b)"

text \<open>
  The \<open>for\<close> loop of \<open>get_best_stream_one\<close>: every stream is pushed onto
  exactly one of the three arrays \<open>opus\<close>, \<open>audio\<close>, \<open>other\<close>.
\<close>

fun push_streams ::
  "stream list \<Rightarrow> stream list \<Rightarrow> stream list \<Rightarrow> stream list
     \<Rightarrow> stream list \<times> stream list \<times> stream list" where
  "push_streams [] opus audio_l other = (opus, audio_l, other)"
| "push_streams (s # ss) opus audio_l other =
     (if video s then push_streams ss opus audio_l (other @ [s])
      else if codecs s = Some ''opus'' then push_streams ss (opus @ [s]) audio_l other
      else push_streams ss opus (audio_l @ [s]) other)"

text \<open>
  \<open>candidates.sort((a, b) => (b.bitrate ?? 0) - (a.bitrate ?? 0))\<close>:
  \<open>Array.prototype.sort\<close> is a stable sort, here in descending order of the
  bitrate, which is the stable insertion sort on the negated bitrate.
\<close>

definition sort_by_bitrate :: "stream list \<Rightarrow> stream list" where
  "sort_by_bitrate cs = sort_key (\<lambda>s. - bitrate_or0 s) cs"

definition get_best_stream_one :: "stream list \<Rightarrow> stream option" where
  "get_best_stream_one ss =
     (if ss = [] then None
      else case push_streams ss [] [] [] of
        (opus, audio_l, other) \<Rightarrow>
          (let candidates = (if opus \<noteq> [] then opus
                             else if audio_l \<noteq> [] then audio_l else other)
           in if candidates = [] then None
              else case sort_by_bitrate candidates of
                     [] \<Rightarrow> None
                   | c # _ \<Rightarrow> Some c))"

definition get_best_stream :: "track_streams \<Rightarrow> stream option" where
  "get_best_stream streams =
     (let vol = streams_volume streams;
          audioStreams = filter audio (entries streams);
          result = get_best_stream_one (filter default_audio_track audioStreams);
          result = (case result of None \<Rightarrow> get_best_stream_one audioStreams
                                 | Some r \<Rightarrow> Some r)
      in case result of
           None \<Rightarrow> None
         | Some r \<Rightarrow> (if vol \<noteq> None then Some (r\<lparr>volume := vol\<rparr>) else Some r))"

subsection \<open>The selection rule in the words of the specification\<close>






text \<open>The streams of the two examples of the specification.\<close>

definition opus96 :: stream where
  "opus96 = \<lparr>video = False, audio = True, codecs = Some ''opus'', bitrate = Some 96,
             default_audio_track = False, volume = None\<rparr>"

definition aac128 :: stream where
  "aac128 = \<lparr>video = False, audio = True, codecs = Some ''aac'', bitrate = Some 128,
             default_audio_track = False, volume = None\<rparr>"

definition video720 :: stream where
  "video720 = \<lparr>video = True, audio = False, codecs = None, bitrate = Some 720,
               default_audio_track = False, volume = None\<rparr>"

definition av720 :: stream where
  "av720 = \<lparr>video = True, audio = True, codecs = None, bitrate = Some 720,
            default_audio_track = False, volume = None\<rparr>"

definition plain_streams :: "stream list \<Rightarrow> track_streams" where
  "plain_streams ss = \<lparr>entries = ss, streams_volume = None, expired = False\<rparr>"

section \<open>The player, its sessions and the packet codec (TrackPlayer)\<close>

text \<open>
  Values a JavaScript \<open>number\<close> field holds are integers here (counters, sizes,
  milliseconds), modelled as \<open>int\<close>; a field that may be \<open>undefined\<close> is an
  \<open>option\<close>. Buffers are lists of bytes.
\<close>

type_synonym byte = "8 word"

text \<open>
  The exceptions of \<open>Error.ts\<close> that the player throws or emits, by message,
  the \<open>RangeError\<close> of a \<open>Buffer\<close> write out of range, a failure of the
  native decode engine or of the cipher, and the \<open>TypeError\<close> of calling what
  is not a function.
\<close>

datatype error =
    UnsupportedError string
  | GenericError string
  | InternalError string
  | RangeError
  | NativeError
  | TypeError

text \<open>The \<open>error: any\<close> argument handed to the error handler.\<close>

datatype thrown = ErrorObject string | OtherValue string | NoValue

datatype event = ErrorEvent error | FinishEvent | PacketEvent "byte list" int

text \<open>
  What an observer of the player sees, in order: the events it emits, and each
  call of \<open>send\<close> with the clock time, the frame size and the silence flag.
\<close>

datatype action = Emitted event | SendCall int int bool

datatype status = Signalling | Connecting | Ready | Disconnected | Destroyed

record connection_data =
  encryptionMode :: "string option"
  encryption_mode :: "int option"
  secretKey :: "byte list option"
  ssrc :: "int option"
  sequence :: "int option"
  timestamp :: "int option"
  nonce :: "int option"

record udp_socket =
  remote_ip :: "string option"
  remote_port :: "int option"
  sent :: "byte list list"

record networking_state =
  connectionData :: "connection_data option"
  udp :: "udp_socket option"

text \<open>
  A session as the player reads it: \<open>state.status\<close>, \<open>state.networking.state\<close>
  (absent when either link is missing), the speaking flag set by
  \<open>setSpeaking\<close> and the number of times the player's \<open>onstatechange\<close> is
  registered as a \<open>stateChange\<close> listener.
\<close>

record connection =
  status :: status
  networking :: "networking_state option"
  speaking :: bool
  listeners :: nat

text \<open>
  The native part of the decode engine (\<open>player.ffplayer\<close>): the secret box set
  by \<open>setSecretBox\<close> and \<open>updateSecretBox\<close> and read by \<open>getSecretBox\<close>, the
  pipe target, and whether the event hooks are bound. The engine is outside
  this repository: \<open>native_ok\<close> says whether its calls return (they throw
  otherwise).
\<close>

record ffplayer_state =
  box_key :: "byte list"
  box_mode :: int
  box_ssrc :: int
  box_sequence :: "int option"
  box_timestamp :: "int option"
  box_nonce :: "int option"
  pipe_target :: "(string \<times> int) option"
  handlers_bound :: bool
  native_ok :: bool

record audio_player =
  ffplayer :: "ffplayer_state option"
  has_setTrack :: bool
  cur_time :: int
  output_format :: "(int \<times> int \<times> int) option"
  seek_pos :: "int option"
  paused :: bool

record track =
  streams :: "track_streams option"
  has_getStreams :: bool
  custom_player :: bool

text \<open>
  The fields of \<open>TrackPlayer\<close>, followed by what the player shares with its
  surroundings: the sessions by reference (\<open>subscriptions\<close> lists the session of
  each \<open>Subscription\<close>, in order), the module's scratch buffers, the number of
  draws made from the random source, the clock (\<open>Date.now()\<close>, which is also the
  clock of the timers) and the trace of observable actions. An armed interval
  timer is represented by the time of its next firing.
\<close>

record world =
  normalize_volume :: bool
  external_encrypt :: bool
  external_packet_send :: bool
  last_error :: int
  track :: "track option"
  subscriptions :: "nat list"
  silence_frames_interval :: "int option"
  silence_frames_left :: int
  silence_frames_needed :: bool
  player :: "audio_player option"
  conns :: "nat \<Rightarrow> connection"
  AUDIO_BUFFER :: "byte list"
  CONNECTION_NONCE :: "byte list"
  AUDIO_NONCE :: "byte list"
  RANDOM_BYTES :: "byte list"
  draws :: nat
  now :: int
  trace :: "action list"

text \<open>
  The cipher \<open>sodium.crypto_secretbox_easy(out, message, nonce, key)\<close> and the
  random source \<open>sodium.randombytes_buf\<close> are outside the repository and are
  parameters: the cipher maps message, nonce and key to the ciphertext, or
  throws (\<open>None\<close>); the random source gives the bytes of its n-th draw.
\<close>

type_synonym secretbox = "byte list \<Rightarrow> byte list \<Rightarrow> byte list \<Rightarrow> byte list option"
type_synonym randombytes = "nat \<Rightarrow> byte list"

definition ERROR_INTERVAL :: int where
  "ERROR_INTERVAL = 5 * 60 * 1000"

definition SILENCE :: "byte list" where
  "SILENCE = [0xf8, 0xff, 0xfe]"

definition LITE :: int where "LITE = 1"
definition SUFFIX :: int where "SUFFIX = 2"
definition DEFAULT :: int where "DEFAULT = 3"

subsection \<open>Buffers\<close>

text \<open>
  \<open>buf.writeUInt16BE(v, off)\<close> and \<open>buf.writeUInt32BE(v, off)\<close> throw a
  \<open>RangeError\<close> for a value outside the unsigned range or a write beyond the
  end of the buffer.
\<close>

definition u16be :: "int \<Rightarrow> byte list" where
  "u16be v = [word_of_int (v div 2 ^ 8), word_of_int v]"

definition u32be :: "int \<Rightarrow> byte list" where
  "u32be v = [word_of_int (v div 2 ^ 24), word_of_int (v div 2 ^ 16),
              word_of_int (v div 2 ^ 8), word_of_int v]"

text \<open>\<open>dst.set(src, off)\<close>: the bytes of \<open>src\<close> replace those of \<open>dst\<close> from \<open>off\<close>.\<close>

definition blit :: "byte list \<Rightarrow> nat \<Rightarrow> byte list \<Rightarrow> byte list" where
  "blit src off dst = take off dst @ src @ drop (off + length src) dst"

definition buffer_set :: "byte list \<Rightarrow> nat \<Rightarrow> byte list \<Rightarrow> error + byte list" where
  "buffer_set src off dst =
     (if off + length src > length dst then Inl RangeError else Inr (blit src off dst))"

definition writeUInt16BE :: "int \<Rightarrow> nat \<Rightarrow> byte list \<Rightarrow> error + byte list" where
  "writeUInt16BE v off buf =
     (if v < 0 \<or> v > 65535 then Inl RangeError else buffer_set (u16be v) off buf)"

definition writeUInt32BE :: "int \<Rightarrow> nat \<Rightarrow> byte list \<Rightarrow> error + byte list" where
  "writeUInt32BE v off buf =
     (if v < 0 \<or> v > 4294967295 then Inl RangeError else buffer_set (u32be v) off buf)"

text \<open>The big-endian value of a byte list, to read a written counter back.\<close>

definition be_value :: "byte list \<Rightarrow> int" where
  "be_value bs = foldl (\<lambda>acc b. acc * 256 + uint b) 0 bs"

subsection \<open>Access to the sessions\<close>

definition map_conn :: "nat \<Rightarrow> (connection \<Rightarrow> connection) \<Rightarrow> world \<Rightarrow> world" where
  "map_conn c f w = w\<lparr>conns := (conns w)(c := f (conns w c))\<rparr>"

text \<open>Assignments to fields of the \<open>connectionData\<close> object of session \<open>c\<close>.\<close>

definition set_data :: "nat \<Rightarrow> connection_data \<Rightarrow> world \<Rightarrow> world" where
  "set_data c cd w =
     map_conn c (\<lambda>k. k\<lparr>networking :=
        map_option (\<lambda>n. n\<lparr>connectionData := Some cd\<rparr>) (networking k)\<rparr>) w"

text \<open>\<open>udp.send(packet)\<close> on the socket of session \<open>c\<close>.\<close>

definition udp_send :: "nat \<Rightarrow> byte list \<Rightarrow> world \<Rightarrow> world" where
  "udp_send c packet w =
     map_conn c (\<lambda>k. k\<lparr>networking :=
        map_option (\<lambda>n. n\<lparr>udp :=
           map_option (\<lambda>u. u\<lparr>sent := sent u @ [packet]\<rparr>) (udp n)\<rparr>) (networking k)\<rparr>) w"

definition emit :: "event \<Rightarrow> world \<Rightarrow> world" where
  "emit ev w = w\<lparr>trace := trace w @ [Emitted ev]\<rparr>"

definition message_of :: "error \<Rightarrow> string" where
  "message_of e = (case e of
       UnsupportedError m \<Rightarrow> m
     | GenericError m \<Rightarrow> m
     | InternalError m \<Rightarrow> m
     | RangeError \<Rightarrow> ''The value is out of range''
     | NativeError \<Rightarrow> ''native error''
     | TypeError \<Rightarrow> ''not a function'')"

definition mode_of_string :: "string \<Rightarrow> int" where
  "mode_of_string m =
     (if m = ''xsalsa20_poly1305_lite'' then LITE
      else if m = ''xsalsa20_poly1305_suffix'' then SUFFIX
      else DEFAULT)"

subsection \<open>The packet codec: send\<close>

text \<open>
  \<open>let mode = connectionData.encryption_mode; if (!mode) { ... }\<close>: the cached
  mode when it is truthy, else the mode of the negotiated mode string, which is
  then cached; none when the mode string is not a string.
\<close>

definition resolve_mode :: "connection_data \<Rightarrow> (int \<times> connection_data) option" where
  "resolve_mode cd =
     (let fresh = (case encryptionMode cd of
                     None \<Rightarrow> None
                   | Some m \<Rightarrow> Some (mode_of_string m,
                                cd\<lparr>encryption_mode := Some (mode_of_string m)\<rparr>))
      in case encryption_mode cd of
           None \<Rightarrow> fresh
         | Some m \<Rightarrow> (if m = 0 then fresh else Some (m, cd)))"

text \<open>
  \<open>sodium.crypto_secretbox_easy(AUDIO_BUFFER.subarray(12), payload, nonce, key)\<close>:
  the ciphertext is written into the buffer from offset 12 and its length is
  returned; the call throws when the cipher fails or the ciphertext does not
  fit.
\<close>

definition secretbox_into ::
  "secretbox \<Rightarrow> byte list \<Rightarrow> byte list \<Rightarrow> byte list \<Rightarrow> byte list
     \<Rightarrow> (byte list \<times> nat) option" where
  "secretbox_into box payload nonce_buf key buf =
     (case box payload nonce_buf key of
        None \<Rightarrow> None
      | Some ct \<Rightarrow> (if 12 + length ct > length buf then None
                   else Some (blit ct 12 buf, length ct)))"

text \<open>\<open>sodium.randombytes_buf(RANDOM_BYTES)\<close> fills the 24 bytes of the buffer.\<close>

definition randombytes_buf :: "randombytes \<Rightarrow> world \<Rightarrow> world" where
  "randombytes_buf rnd w =
     w\<lparr>RANDOM_BYTES := take 24 (rnd (draws w) @ replicate 24 0), draws := draws w + 1\<rparr>"

text \<open>
  The two statements that step a counter: \<open>sequence++\<close>,
  \<open>timestamp += frameSize\<close> and \<open>nonce = (nonce ?? 0) + 1\<close>, each followed
  by its guard \<open>if (counter > MAX) counter = 0\<close>.
\<close>

definition next_sequence :: "int \<Rightarrow> int" where
  "next_sequence s = (let s1 = s + 1 in if s1 > 65535 then 0 else s1)"

definition next_timestamp :: "int \<Rightarrow> int \<Rightarrow> int" where
  "next_timestamp t frameSize = (let t1 = t + frameSize in if t1 > 4294967295 then 0 else t1)"

definition next_nonce :: "int option \<Rightarrow> int" where
  "next_nonce n =
     (let n1 = (case n of None \<Rightarrow> 0 | Some v \<Rightarrow> v) + 1 in if n1 > 4294967295 then 0 else n1)"

text \<open>
  The \<open>try\<close> block of \<open>send\<close>: the \<open>switch\<close> over the mode, then
  \<open>udp.send(AUDIO_BUFFER.subarray(0, len))\<close>. An exception inside is caught and
  logged, so the result is the state reached when it was thrown. First the
  three cases of the \<open>switch\<close>, each with the send that follows it.
\<close>

definition encrypt_lite ::
  "secretbox \<Rightarrow> byte list \<Rightarrow> byte list \<Rightarrow> nat \<Rightarrow> connection_data \<Rightarrow> world \<Rightarrow> world" where
  "encrypt_lite box payload key c cd w =
     (let n2 = next_nonce (nonce cd);
          w1 = set_data c (cd\<lparr>nonce := Some n2\<rparr>) w
      in case writeUInt32BE n2 0 (CONNECTION_NONCE w1) of
           Inl e \<Rightarrow> w1
         | Inr nb \<Rightarrow>
            (let w2 = w1\<lparr>CONNECTION_NONCE := nb\<rparr>
             in case secretbox_into box payload nb key (AUDIO_BUFFER w2) of
                  None \<Rightarrow> w2
                | Some (ab, n) \<Rightarrow>
                   (let w3 = w2\<lparr>AUDIO_BUFFER := ab\<rparr>
                    in case buffer_set (take 4 nb) (12 + n) ab of
                         Inl e \<Rightarrow> w3
                       | Inr ab2 \<Rightarrow>
                           udp_send c (take (12 + n + 4) ab2) (w3\<lparr>AUDIO_BUFFER := ab2\<rparr>))))"

definition encrypt_suffix ::
  "secretbox \<Rightarrow> randombytes \<Rightarrow> byte list \<Rightarrow> byte list \<Rightarrow> nat \<Rightarrow> world \<Rightarrow> world" where
  "encrypt_suffix box rnd payload key c w =
     (let w1 = randombytes_buf rnd w
      in case secretbox_into box payload (RANDOM_BYTES w1) key (AUDIO_BUFFER w1) of
           None \<Rightarrow> w1
         | Some (ab, n) \<Rightarrow>
            (let w2 = w1\<lparr>AUDIO_BUFFER := ab\<rparr>
             in case buffer_set (RANDOM_BYTES w1) (12 + n) ab of
                  Inl e \<Rightarrow> w2
                | Inr ab2 \<Rightarrow>
                    udp_send c (take (12 + n + 24) ab2) (w2\<lparr>AUDIO_BUFFER := ab2\<rparr>)))"

definition encrypt_default ::
  "secretbox \<Rightarrow> byte list \<Rightarrow> byte list \<Rightarrow> nat \<Rightarrow> world \<Rightarrow> world" where
  "encrypt_default box payload key c w =
     (let w1 = w\<lparr>AUDIO_NONCE := blit (take 12 (AUDIO_BUFFER w)) 0 (AUDIO_NONCE w)\<rparr>
      in case secretbox_into box payload (AUDIO_NONCE w1) key (AUDIO_BUFFER w1) of
           None \<Rightarrow> w1
         | Some (ab, n) \<Rightarrow> udp_send c (take (12 + n) ab) (w1\<lparr>AUDIO_BUFFER := ab\<rparr>))"

definition encrypt_and_send ::
  "secretbox \<Rightarrow> randombytes \<Rightarrow> int \<Rightarrow> byte list \<Rightarrow> byte list \<Rightarrow> nat
     \<Rightarrow> connection_data \<Rightarrow> world \<Rightarrow> world" where
  "encrypt_and_send box rnd mode payload key c cd w =
     (if mode = LITE then encrypt_lite box payload key c cd w
      else if mode = SUFFIX then encrypt_suffix box rnd payload key c w
      else if mode = DEFAULT then encrypt_default box payload key c w
      else udp_send c (take 12 (AUDIO_BUFFER w)) w)"

text \<open>
  The three header writes. They stand outside the \<open>try\<close>, so an exception of
  theirs leaves \<open>send\<close>, with the bytes written so far in the buffer.
\<close>

definition write_header :: "int \<Rightarrow> int \<Rightarrow> int \<Rightarrow> world \<Rightarrow> error option \<times> world" where
  "write_header s t x w =
     (case writeUInt16BE s 2 (AUDIO_BUFFER w) of
        Inl e \<Rightarrow> (Some e, w)
      | Inr b1 \<Rightarrow>
         (case writeUInt32BE t 4 b1 of
            Inl e \<Rightarrow> (Some e, w\<lparr>AUDIO_BUFFER := b1\<rparr>)
          | Inr b2 \<Rightarrow>
             (case writeUInt32BE x 8 b2 of
                Inl e \<Rightarrow> (Some e, w\<lparr>AUDIO_BUFFER := b2\<rparr>)
              | Inr b3 \<Rightarrow> (None, w\<lparr>AUDIO_BUFFER := b3\<rparr>))))"

text \<open>
  The part of the loop body after the raw path: the mode, the check of the
  required fields, the two counters with their wrap-around guards, the header
  and the \<open>try\<close> block.
\<close>

definition send_packet ::
  "secretbox \<Rightarrow> randombytes \<Rightarrow> byte list \<Rightarrow> int \<Rightarrow> nat \<Rightarrow> connection_data \<Rightarrow> world
     \<Rightarrow> error option \<times> world" where
  "send_packet box rnd buffer frameSize c cd0 w0 =
     (case resolve_mode cd0 of
        None \<Rightarrow> (None, w0)
      | Some (mode, cd1) \<Rightarrow>
         (let w1 = set_data c cd1 w0
          in case (sequence cd1, timestamp cd1, ssrc cd1, secretKey cd1) of
               (Some s, Some t, Some x, Some key) \<Rightarrow>
                 (let cd2 = cd1\<lparr>sequence := Some (next_sequence s),
                                  timestamp := Some (next_timestamp t frameSize)\<rparr>;
                      w2 = set_data c cd2 w1
                  in case write_header (next_sequence s) (next_timestamp t frameSize) x w2 of
                       (Some e, w3) \<Rightarrow> (Some e, w3)
                     | (None, w3) \<Rightarrow>
                         (None, encrypt_and_send box rnd mode buffer key c cd2 w3))
             | _ \<Rightarrow> (None, w1)))"

text \<open>The body of the \<open>for\<close> loop of \<open>send\<close>, for the session \<open>c\<close>.\<close>

definition send_conn ::
  "secretbox \<Rightarrow> randombytes \<Rightarrow> byte list \<Rightarrow> int \<Rightarrow> bool \<Rightarrow> nat \<Rightarrow> world
     \<Rightarrow> error option \<times> world" where
  "send_conn box rnd buffer frameSize isSilence c w0 =
     (if status (conns w0 c) \<noteq> Ready then (None, w0)
      else
        (let w1 = map_conn c (\<lambda>k. k\<lparr>speaking := True\<rparr>) w0
         in case networking (conns w1 c) of
              None \<Rightarrow> (None, w1)
            | Some net \<Rightarrow>
               (case (connectionData net, udp net) of
                  (Some cd, Some u) \<Rightarrow>
                    (if external_encrypt w1 \<and> \<not> isSilence
                     then (None, udp_send c buffer w1)
                     else send_packet box rnd buffer frameSize c cd w1)
                | _ \<Rightarrow> (None, w1))))"

fun send_loop ::
  "secretbox \<Rightarrow> randombytes \<Rightarrow> byte list \<Rightarrow> int \<Rightarrow> bool \<Rightarrow> nat list \<Rightarrow> world
     \<Rightarrow> error option \<times> world" where
  "send_loop box rnd buffer frameSize isSilence [] w = (None, w)"
| "send_loop box rnd buffer frameSize isSilence (c # cs) w =
     (case send_conn box rnd buffer frameSize isSilence c w of
        (Some e, w') \<Rightarrow> (Some e, w')
      | (None, w') \<Rightarrow> send_loop box rnd buffer frameSize isSilence cs w')"

definition send ::
  "secretbox \<Rightarrow> randombytes \<Rightarrow> byte list \<Rightarrow> int \<Rightarrow> bool \<Rightarrow> world \<Rightarrow> error option \<times> world" where
  "send box rnd buffer frameSize isSilence w =
     send_loop box rnd buffer frameSize isSilence (subscriptions w)
       (w\<lparr>trace := trace w @ [SendCall (now w) frameSize isSilence]\<rparr>)"

subsection \<open>Readiness of the first session\<close>

definition secretbox_ready :: "world \<Rightarrow> bool" where
  "secretbox_ready w =
     (case subscriptions w of [] \<Rightarrow> False | c # _ \<Rightarrow> status (conns w c) = Ready)"

definition get_connection :: "world \<Rightarrow> error + nat" where
  "get_connection w =
     (case subscriptions w of
        [] \<Rightarrow> Inl (GenericError ''TrackPlayer has no subscriptions, cannot get VoiceConnection'')
      | c # _ \<Rightarrow> Inr c)"

definition get_connection_data :: "world \<Rightarrow> error + nat \<times> connection_data" where
  "get_connection_data w =
     (case get_connection w of
        Inl e \<Rightarrow> Inl e
      | Inr c \<Rightarrow>
         (if status (conns w c) \<noteq> Ready
          then Inl (GenericError ''Connection not ready or missing connection data'')
          else case networking (conns w c) of
                 None \<Rightarrow> Inl (GenericError ''Connection not ready or missing connection data'')
               | Some n \<Rightarrow>
                  (case connectionData n of
                     None \<Rightarrow> Inl (GenericError ''Connection not ready or missing connection data'')
                   | Some cd \<Rightarrow> Inr (c, cd))))"

definition get_connection_udp :: "world \<Rightarrow> error + udp_socket" where
  "get_connection_udp w =
     (case get_connection w of
        Inl e \<Rightarrow> Inl e
      | Inr c \<Rightarrow>
         (if status (conns w c) \<noteq> Ready
          then Inl (GenericError ''Connection not ready or missing UDP information'')
          else case networking (conns w c) of
                 None \<Rightarrow> Inl (GenericError ''Connection not ready or missing UDP information'')
               | Some n \<Rightarrow>
                  (case udp n of
                     None \<Rightarrow> Inl (GenericError ''Connection not ready or missing UDP information'')
                   | Some u \<Rightarrow> Inr u)))"

definition set_ffplayer :: "ffplayer_state \<Rightarrow> world \<Rightarrow> world" where
  "set_ffplayer ff w = w\<lparr>player := map_option (\<lambda>p. p\<lparr>ffplayer := Some ff\<rparr>) (player w)\<rparr>"

subsection \<open>The keepalive: silence frames\<close>

text \<open>
  The \<open>try\<close> block of \<open>start_silence_frames\<close>: the counters of the decode engine
  are copied into the connection data of the first session.
\<close>

definition restore_from_box :: "world \<Rightarrow> error + world" where
  "restore_from_box w =
     (case player w of
        None \<Rightarrow> Inl (GenericError ''ffplayer not available'')
      | Some p \<Rightarrow>
         (case ffplayer p of
            None \<Rightarrow> Inl (GenericError ''ffplayer not available'')
          | Some ff \<Rightarrow>
             (if \<not> native_ok ff then Inl NativeError
              else case get_connection_data w of
                     Inl e \<Rightarrow> Inl e
                   | Inr (c, cd) \<Rightarrow>
                      (case (box_nonce ff, box_timestamp ff, box_sequence ff) of
                         (Some n, Some t, Some s) \<Rightarrow>
                           Inr (set_data c (cd\<lparr>nonce := Some n, timestamp := Some t,
                                               sequence := Some s\<rparr>) w)
                       | _ \<Rightarrow> Inl (GenericError ''Invalid secret box state from player'')))))"

definition start_silence_frames :: "world \<Rightarrow> world" where
  "start_silence_frames w0 =
     (if \<not> silence_frames_needed w0 \<or> silence_frames_interval w0 \<noteq> None then w0
      else
        (let w1 = w0\<lparr>silence_frames_needed := False\<rparr>;
             arm = (\<lambda>w. w\<lparr>silence_frames_interval := Some (now w + 20)\<rparr>)
         in if player w1 \<noteq> None \<and> external_encrypt w1 \<and> secretbox_ready w1
            then (case restore_from_box w1 of Inl e \<Rightarrow> w1 | Inr w2 \<Rightarrow> arm w2)
            else arm w1))"



definition stop_silence_frames :: "world \<Rightarrow> world" where
  "stop_silence_frames w =
     (if silence_frames_needed w then w
      else w\<lparr>silence_frames_interval := None, silence_frames_needed := True,
             silence_frames_left := 5\<rparr>)"






definition isPaused :: "world \<Rightarrow> error + bool" where
  "isPaused w =
     (case player w of
        None \<Rightarrow> Inl (GenericError ''Player was destroyed or nothing was playing'')
      | Some p \<Rightarrow> Inr (paused p))"


text \<open>
  \<open>onpacket\<close>: a frame of the decode engine. The frame is cut to \<open>length\<close> bytes
  when the two differ.
\<close>

definition onpacket ::
  "secretbox \<Rightarrow> randombytes \<Rightarrow> byte list \<Rightarrow> nat \<Rightarrow> int \<Rightarrow> world \<Rightarrow> error option \<times> world" where
  "onpacket box rnd packet len frameSize w0 =
     (case isPaused w0 of
        Inl e \<Rightarrow> (Some e, w0)
      | Inr is_paused \<Rightarrow>
         (let w1 = (if \<not> is_paused then stop_silence_frames w0 else w0);
              finalPacket = (if length packet = len then packet else take len packet)
          in case (if \<not> external_packet_send w1
                   then send box rnd finalPacket frameSize False w1 else (None, w1)) of
               (Some e, w2) \<Rightarrow> (Some e, w2)
             | (None, w2) \<Rightarrow> (None, emit (PacketEvent finalPacket frameSize) w2)))"

subsection \<open>Errors of the decode engine\<close>

definition destroy_player :: "world \<Rightarrow> world" where
  "destroy_player w =
     (case player w of
        None \<Rightarrow> w
      | Some p \<Rightarrow> (start_silence_frames w)\<lparr>player := None\<rparr>)"

definition thrown_message :: "thrown \<Rightarrow> string \<Rightarrow> string" where
  "thrown_message e dflt =
     (case e of ErrorObject m \<Rightarrow> m | OtherValue v \<Rightarrow> v | NoValue \<Rightarrow> dflt)"

text \<open>
  \<open>error(error, retryable)\<close>: \<open>retryable\<close> may be left out. \<open>Date.now()\<close> is the
  clock of the world; the clock does not move while the handler runs.
\<close>

definition error :: "thrown \<Rightarrow> bool option \<Rightarrow> world \<Rightarrow> bool \<times> world" where
  "error e retryable w =
     (if retryable = Some False \<or> now w - last_error w < ERROR_INTERVAL
      then (True, emit (ErrorEvent (InternalError (thrown_message e ''Unknown playback error'')))
                    (destroy_player w))
      else (False, w\<lparr>last_error := now w\<rparr>))"

subsection \<open>The secret box of the decode engine\<close>

text \<open>
  The first \<open>try\<close> block of \<open>init_secretbox\<close>, for a ready first session. The
  result carries the state reached, also when an exception is thrown.
\<close>

definition setup_secretbox :: "ffplayer_state \<Rightarrow> world \<Rightarrow> error option \<times> world" where
  "setup_secretbox ff w =
     (case get_connection_data w of
        Inl e \<Rightarrow> (Some e, w)
      | Inr (c, cd) \<Rightarrow>
         (case get_connection_udp w of
            Inl e \<Rightarrow> (Some e, w)
          | Inr u \<Rightarrow>
             (case encryptionMode cd of
                None \<Rightarrow> (Some (GenericError ''Missing or invalid encryptionMode in connection data''), w)
              | Some m \<Rightarrow>
                 (case (secretKey cd, ssrc cd, sequence cd, timestamp cd, nonce cd) of
                    (Some key, Some x, Some s, Some t, Some n) \<Rightarrow>
                      (if \<not> native_ok ff then (Some NativeError, w)
                       else
                         (let ff1 = ff\<lparr>box_key := key, box_mode := mode_of_string m, box_ssrc := x\<rparr>;
                              ff2 = ff1\<lparr>box_sequence := Some s, box_timestamp := Some t,
                                         box_nonce := Some n\<rparr>;
                              w1 = set_ffplayer ff2 w
                          in if external_packet_send w1
                             then (case (remote_ip u, remote_port u) of
                                     (Some ip, Some port) \<Rightarrow>
                                       (if ip = [] then (Some (GenericError ''Missing UDP remote address or port''), w1)
                                        else (None, set_ffplayer (ff2\<lparr>pipe_target := Some (ip, port)\<rparr>) w1))
                                   | _ \<Rightarrow> (Some (GenericError ''Missing UDP remote address or port''), w1))
                             else (None, w1)))
                  | _ \<Rightarrow> (Some (GenericError ''Missing required connection data properties for secret box''), w)))))"

definition cleanup :: "world \<Rightarrow> world" where
  "cleanup w = destroy_player w"

definition init_secretbox :: "world \<Rightarrow> world" where
  "init_secretbox w =
     (if \<not> external_encrypt w then w
      else case player w of
        None \<Rightarrow> w
      | Some p \<Rightarrow>
         (case ffplayer p of
            None \<Rightarrow> w
          | Some ff \<Rightarrow>
             (if secretbox_ready w
              then (case setup_secretbox ff w of
                      (Some e, w1) \<Rightarrow> emit (ErrorEvent (GenericError (message_of e))) (cleanup w1)
                    | (None, w1) \<Rightarrow> w1)
              else
                (let w1 = (if \<not> native_ok ff
                           then emit (ErrorEvent (GenericError (message_of NativeError))) (cleanup w)
                           else set_ffplayer (ff\<lparr>box_key := replicate 32 0, box_mode := 0,
                                                  box_ssrc := 0\<rparr>) w)
                 in if external_packet_send w1
                    then (case player w1 of
                            None \<Rightarrow> w1
                          | Some p1 \<Rightarrow>
                             (case ffplayer p1 of
                                None \<Rightarrow> w1
                              | Some ff1 \<Rightarrow> set_ffplayer (ff1\<lparr>pipe_target := None\<rparr>) w1))
                    else w1))))"

subsection \<open>Subscriptions\<close>

text \<open>
  \<open>subscribe(connection)\<close> returns the new \<open>Subscription\<close>, identified here by
  its session, or throws.
\<close>

definition subscribe :: "nat \<Rightarrow> world \<Rightarrow> (error + nat) \<times> world" where
  "subscribe c w0 =
     (if external_encrypt w0 \<and> subscriptions w0 \<noteq> []
      then (Inl (UnsupportedError
              ''Cannot subscribe to multiple connections when external encryption is enabled''), w0)
      else
        (let w1 = (if external_encrypt w0
                   then map_conn c (\<lambda>k. k\<lparr>listeners := listeners k + 1\<rparr>) w0 else w0);
             w2 = w1\<lparr>subscriptions := subscriptions w1 @ [c]\<rparr>
         in (Inr c, init_secretbox w2)))"

subsection \<open>Creating the decode engine and restarting after an error\<close>

text \<open>
  \<open>create_player(startTime)\<close>. The outcome of the constructor call
  (\<open>new CustomPlayer(...)\<close> when the track brings its own player, else
  \<open>new AudioPlayer(...)\<close>) is the parameter \<open>ctor\<close>.
\<close>

definition create_player :: "error + audio_player \<Rightarrow> int option \<Rightarrow> world \<Rightarrow> world" where
  "create_player ctor startTime w0 =
     (let w1 = destroy_player w0;
          custom = (case track w1 of None \<Rightarrow> False | Some tr \<Rightarrow> custom_player tr)
      in case ctor of
           Inl e \<Rightarrow> emit (ErrorEvent (GenericError (message_of e))) w1
         | Inr p \<Rightarrow>
            (let w2 = w1\<lparr>player := Some p\<rparr>
             in if custom \<and> \<not> has_setTrack p
                then emit (ErrorEvent (GenericError
                             ''Custom player instance missing setTrack method'')) w2
                else case ffplayer p of
                       None \<Rightarrow>
                         (emit (ErrorEvent (GenericError
                                  ''Failed to initialize ffplayer component'')) w2)\<lparr>player := None\<rparr>
                     | Some ff \<Rightarrow>
                        (let p1 = p\<lparr>output_format := Some (2, 48000, 256000)\<rparr>;
                             p2 = (case startTime of
                                     None \<Rightarrow> p1
                                   | Some st \<Rightarrow> (if st > 0 then p1\<lparr>seek_pos := Some st\<rparr> else p1));
                             p3 = p2\<lparr>ffplayer := Some (ff\<lparr>handlers_bound := True\<rparr>)\<rparr>
                         in init_secretbox (w2\<lparr>player := Some p3\<rparr>))))"

text \<open>
  \<open>start()\<close> and \<open>load_streams()\<close> are asynchronous. Their synchronous beginning
  decides where the streams come from: the cached collection of the track when
  there is one that has not expired, else a call of \<open>track.getStreams()\<close> whose
  result is awaited.
\<close>

datatype load_step = NotStarted | LoadFailed | UseCached track_streams | AwaitGetStreams

definition load_streams_begin :: "world \<Rightarrow> load_step \<times> world" where
  "load_streams_begin w =
     (case track w of
        None \<Rightarrow> (LoadFailed, emit (ErrorEvent (GenericError
                     ''Current track is missing getStreams method'')) w)
      | Some tr \<Rightarrow>
         (if \<not> has_getStreams tr
          then (LoadFailed, emit (ErrorEvent (GenericError
                     ''Current track is missing getStreams method'')) w)
          else case streams tr of
                 None \<Rightarrow> (AwaitGetStreams, w)
               | Some ss \<Rightarrow> (if \<not> expired ss then (UseCached ss, w) else (AwaitGetStreams, w))))"

definition start_begin :: "world \<Rightarrow> load_step \<times> world" where
  "start_begin w =
     (if player w = None \<or> track w = None then (NotStarted, w) else load_streams_begin w)"

definition getTime :: "world \<Rightarrow> error + int" where
  "getTime w =
     (case player w of
        None \<Rightarrow> Inl (GenericError ''Player was destroyed or nothing was playing'')
      | Some p \<Rightarrow> Inr (cur_time p))"

text \<open>
  \<open>onerror(error, code, retryable)\<close>, up to the point where the restarted
  \<open>start()\<close> first waits. The result says whether the error was fatal and, when
  it was not, where the restart takes its streams from.
\<close>

definition onerror ::
  "error + audio_player \<Rightarrow> thrown \<Rightarrow> bool option \<Rightarrow> world \<Rightarrow> (bool \<times> load_step) \<times> world" where
  "onerror ctor e retryable w0 =
     (case error e retryable w0 of
        (True, w1) \<Rightarrow> ((True, NotStarted), w1)
      | (False, w1) \<Rightarrow>
         (let w2 = (case track w1 of
                      None \<Rightarrow> w1
                    | Some tr \<Rightarrow> w1\<lparr>track := Some (tr\<lparr>streams := None\<rparr>)\<rparr>);
              seekTime = (case player w2 of None \<Rightarrow> 0 | Some p \<Rightarrow> cur_time p);
              w3 = create_player ctor (Some seekTime) w2
          in case start_begin w3 of (step, w4) \<Rightarrow> ((False, step), w4)))"

subsection \<open>Reading a session, and the worlds of the examples\<close>

text \<open>The \<open>connectionData\<close> object and the socket of session \<open>c\<close>, when present.\<close>

definition data_of :: "world \<Rightarrow> nat \<Rightarrow> connection_data option" where
  "data_of w c = (case networking (conns w c) of None \<Rightarrow> None | Some n \<Rightarrow> connectionData n)"

definition udp_of :: "world \<Rightarrow> nat \<Rightarrow> udp_socket option" where
  "udp_of w c = (case networking (conns w c) of None \<Rightarrow> None | Some n \<Rightarrow> udp n)"

text \<open>The datagrams handed to \<open>udp.send\<close> of session \<open>c\<close> so far.\<close>

definition sent_of :: "world \<Rightarrow> nat \<Rightarrow> byte list list" where
  "sent_of w c = (case udp_of w c of None \<Rightarrow> [] | Some u \<Rightarrow> sent u)"

text \<open>
  The counters of a \<open>connectionData\<close> object lie in the ranges of the header
  fields that carry them: 16 bits for the sequence, 32 bits for timestamp, SSRC
  and nonce.
\<close>

definition u16 :: "int option \<Rightarrow> bool" where
  "u16 v = (case v of None \<Rightarrow> True | Some n \<Rightarrow> 0 \<le> n \<and> n \<le> 65535)"

definition u32 :: "int option \<Rightarrow> bool" where
  "u32 v = (case v of None \<Rightarrow> True | Some n \<Rightarrow> 0 \<le> n \<and> n \<le> 4294967295)"

definition counters_in_range :: "connection_data \<Rightarrow> bool" where
  "counters_in_range cd \<longleftrightarrow>
     u16 (sequence cd) \<and> u32 (timestamp cd) \<and> u32 (ssrc cd) \<and> u32 (nonce cd)"

text \<open>The module's buffers have the sizes they are allocated with.\<close>

definition buffers_allocated :: "world \<Rightarrow> bool" where
  "buffers_allocated w \<longleftrightarrow>
     length (AUDIO_BUFFER w) = 8192 \<and> length (CONNECTION_NONCE w) = 24
     \<and> length (AUDIO_NONCE w) = 24 \<and> length (RANDOM_BYTES w) = 24"

text \<open>
  A send reaches the codec for session \<open>c\<close>: the session is ready, its
  connection data and socket are there, the frame does not take the raw path of
  external encryption, the mode is known and the required fields are defined.
\<close>

definition codec_path :: "bool \<Rightarrow> nat \<Rightarrow> world \<Rightarrow> bool" where
  "codec_path isSilence c w \<longleftrightarrow>
     status (conns w c) = Ready
     \<and> udp_of w c \<noteq> None
     \<and> \<not> (external_encrypt w \<and> \<not> isSilence)
     \<and> (case data_of w c of
          None \<Rightarrow> False
        | Some cd \<Rightarrow> resolve_mode cd \<noteq> None \<and> sequence cd \<noteq> None \<and> timestamp cd \<noteq> None
                     \<and> ssrc cd \<noteq> None \<and> secretKey cd \<noteq> None)"

text \<open>
  Two worlds differ at most in the sessions, the scratch buffers and the number
  of random draws: the fields of the player itself, the clock and the trace are
  the same.
\<close>

definition same_player :: "world \<Rightarrow> world \<Rightarrow> bool" where
  "same_player w w' \<longleftrightarrow>
     w' = w\<lparr>conns := conns w', AUDIO_BUFFER := AUDIO_BUFFER w',
            CONNECTION_NONCE := CONNECTION_NONCE w', AUDIO_NONCE := AUDIO_NONCE w',
            RANDOM_BYTES := RANDOM_BYTES w', draws := draws w'\<rparr>"

text \<open>
  A step that touches only the sessions in \<open>S\<close>: the player is the same, every
  other session is as before, and no session changes its status or gains or
  loses its networking state or its socket.
\<close>

definition touches :: "nat set \<Rightarrow> world \<Rightarrow> world \<Rightarrow> bool" where
  "touches S w w' \<longleftrightarrow>
     same_player w w'
     \<and> (\<forall>c. c \<notin> S \<longrightarrow> conns w' c = conns w c)
     \<and> (\<forall>c. status (conns w' c) = status (conns w c)
            \<and> (networking (conns w' c) = None \<longleftrightarrow> networking (conns w c) = None)
            \<and> (udp_of w' c = None \<longleftrightarrow> udp_of w c = None))"

text \<open>
  The counters of a session, when it has connection data, lie in their ranges;
  and so for every subscribed session.
\<close>

definition safe_session :: "world \<Rightarrow> nat \<Rightarrow> bool" where
  "safe_session w c = (case data_of w c of None \<Rightarrow> True | Some cd \<Rightarrow> counters_in_range cd)"

definition sessions_in_range :: "world \<Rightarrow> bool" where
  "sessions_in_range w \<longleftrightarrow> (\<forall>c\<in>set (subscriptions w). safe_session w c)"

text \<open>Consecutive calls of \<open>send\<close>, one for each frame of a list.\<close>

fun send_all ::
  "secretbox \<Rightarrow> randombytes \<Rightarrow> (byte list \<times> int \<times> bool) list \<Rightarrow> world
     \<Rightarrow> error option \<times> world" where
  "send_all box rnd [] w = (None, w)"
| "send_all box rnd ((buffer, frameSize, isSilence) # frames) w =
     (case send box rnd buffer frameSize isSilence w of
        (Some e, w') \<Rightarrow> (Some e, w')
      | (None, w') \<Rightarrow> send_all box rnd frames w')"

text \<open>
  A ready session whose three counters stand at their largest values, the
  initial player of the constructor subscribed to it, a stand-in cipher (a
  16-byte tag before the message) and a constant random source.
\<close>

definition data_max :: connection_data where
  "data_max = \<lparr>encryptionMode = Some ''xsalsa20_poly1305_lite'', encryption_mode = None,
               secretKey = Some (replicate 32 0), ssrc = Some 1, sequence = Some 65535,
               timestamp = Some 4294967295, nonce = Some 4294967295\<rparr>"

definition session_max :: connection where
  "session_max = \<lparr>status = Ready,
       networking = Some \<lparr>connectionData = Some data_max,
                           udp = Some \<lparr>remote_ip = Some ''10.0.0.1'', remote_port = Some 50000,
                                       sent = []\<rparr>\<rparr>,
       speaking = False, listeners = 0\<rparr>"

definition new_player :: world where
  "new_player = \<lparr>normalize_volume = False, external_encrypt = False,
       external_packet_send = False, last_error = 0, track = None, subscriptions = [],
       silence_frames_interval = None, silence_frames_left = 0,
       silence_frames_needed = False, player = None, conns = (\<lambda>_. session_max),
       AUDIO_BUFFER = [0x80, 0x78] @ replicate 8190 0, CONNECTION_NONCE = replicate 24 0,
       AUDIO_NONCE = replicate 24 0, RANDOM_BYTES = replicate 24 0, draws = 0,
       now = 1700000000000, trace = []\<rparr>"

definition playing_world :: world where
  "playing_world = new_player\<lparr>subscriptions := [0]\<rparr>"








text \<open>
  A decode engine with a native part, a track with a cached stream collection,
  and a player in the middle of a track, its keepalive armed by the last frame.
\<close>

definition engine :: audio_player where
  "engine = \<lparr>ffplayer = Some \<lparr>box_key = [], box_mode = 0, box_ssrc = 0,
                 box_sequence = None, box_timestamp = None, box_nonce = None,
                 pipe_target = None, handlers_bound = True, native_ok = True\<rparr>,
              has_setTrack = False, cur_time = 42, output_format = Some (2, 48000, 256000),
              seek_pos = None, paused = False\<rparr>"

definition cached_track :: track where
  "cached_track = \<lparr>streams = Some (plain_streams [opus96, aac128]), has_getStreams = True,
                    custom_player = False\<rparr>"

definition mid_track :: world where
  "mid_track = playing_world\<lparr>track := Some cached_track, player := Some engine,
                 silence_frames_needed := True, silence_frames_left := 5\<rparr>"

definition tag_box :: secretbox where
  "tag_box message nonce_buf key = Some (replicate 16 0 @ message)"

definition no_random :: randombytes where
  "no_random n = replicate 24 0"

section \<open>The session and its readiness (VoiceConnection)\<close>

















section \<open>Properties of the stream selection\<close>















text \<open>
  Claim C2, as stated, fails: for the single stream flagged video only, with
  bitrate 720, the selector returns none, because \<open>get_best_stream\<close> keeps
  the audio-capable streams before it partitions them.
\<close>

theorem get_best_stream_video_only_none:
  "get_best_stream (plain_streams [video720]) = None
   \<and> get_best_stream (plain_streams [video720]) \<noteq> Some video720"
  by (simp add: get_best_stream_def plain_streams_def get_best_stream_one_def video720_def)

lemma get_best_stream_one_single: "get_best_stream_one [s] = Some s"
  by (simp add: get_best_stream_one_def sort_by_bitrate_def)

text \<open>
  Claim C2, amended. With no audio-capable stream among the candidates the
  selector returns none. The video partition is the last-priority fallback among
  the audio-capable streams: a list whose only entry is flagged both video and
  audio is answered with that entry.
\<close>

theorem get_best_stream_needs_audio:
  "((\<forall>s\<in>set (entries strs). \<not> audio s) \<longrightarrow> get_best_stream strs = None)
   \<and> (video s \<and> audio s \<longrightarrow> get_best_stream (plain_streams [s]) = Some s)"
proof (intro conjI impI)
  assume "\<forall>s\<in>set (entries strs). \<not> audio s"
  then have "filter audio (entries strs) = []" by (simp add: filter_empty_conv)
  then show "get_best_stream strs = None"
    by (simp add: get_best_stream_def get_best_stream_one_def)
next
  assume "video s \<and> audio s"
  then show "get_best_stream (plain_streams [s]) = Some s"
    by (simp add: get_best_stream_def plain_streams_def get_best_stream_one_def
        sort_by_bitrate_def Let_def)
qed

theorem get_best_stream_needs_audio_witness:
  "\<not> audio video720
   \<and> get_best_stream (plain_streams [video720]) = None
   \<and> video av720 \<and> audio av720
   \<and> get_best_stream (plain_streams [av720]) = Some av720"
proof -
  have h1: "\<forall>s\<in>set (entries (plain_streams [video720])). \<not> audio s"
    by (simp add: plain_streams_def video720_def)
  have h2: "video av720 \<and> audio av720" by (simp add: av720_def)
  from get_best_stream_needs_audio [of "plain_streams [video720]" av720] h1 h2
  show ?thesis by (simp add: video720_def)
qed

section \<open>Properties of the packet codec\<close>

lemma same_player_iff:
  "same_player w w' \<longleftrightarrow>
     normalize_volume w' = normalize_volume w \<and> external_encrypt w' = external_encrypt w
     \<and> external_packet_send w' = external_packet_send w \<and> last_error w' = last_error w
     \<and> track w' = track w \<and> subscriptions w' = subscriptions w
     \<and> silence_frames_interval w' = silence_frames_interval w
     \<and> silence_frames_left w' = silence_frames_left w
     \<and> silence_frames_needed w' = silence_frames_needed w
     \<and> player w' = player w \<and> now w' = now w \<and> trace w' = trace w"
  (is "?l \<longleftrightarrow> ?r")
proof
  assume ?l
  then obtain k ab cn an rb d where "w' = w\<lparr>conns := k, AUDIO_BUFFER := ab,
            CONNECTION_NONCE := cn, AUDIO_NONCE := an, RANDOM_BYTES := rb, draws := d\<rparr>"
    unfolding same_player_def by blast
  then show ?r by simp
next
  assume ?r
  then show ?l unfolding same_player_def by (intro world.equality) simp_all
qed

lemma same_player_refl: "same_player w w"
  by (simp add: same_player_iff)

lemma same_player_trans: "same_player w w' \<Longrightarrow> same_player w' w'' \<Longrightarrow> same_player w w''"
  by (simp add: same_player_iff)

lemma sp_map_conn: "same_player w w' \<Longrightarrow> same_player w (map_conn c f w')"
  by (simp add: same_player_iff map_conn_def)

lemma sp_set_data: "same_player w w' \<Longrightarrow> same_player w (set_data c cd w')"
  by (simp add: set_data_def sp_map_conn)

lemma sp_udp_send: "same_player w w' \<Longrightarrow> same_player w (udp_send c p w')"
  by (simp add: udp_send_def sp_map_conn)

lemma sp_randombytes_buf: "same_player w w' \<Longrightarrow> same_player w (randombytes_buf rnd w')"
  by (simp add: same_player_iff randombytes_buf_def)

lemma sp_AUDIO_BUFFER: "same_player w w' \<Longrightarrow> same_player w (w'\<lparr>AUDIO_BUFFER := b\<rparr>)"
  by (simp add: same_player_iff)

lemma sp_CONNECTION_NONCE: "same_player w w' \<Longrightarrow> same_player w (w'\<lparr>CONNECTION_NONCE := b\<rparr>)"
  by (simp add: same_player_iff)

lemma sp_AUDIO_NONCE: "same_player w w' \<Longrightarrow> same_player w (w'\<lparr>AUDIO_NONCE := b\<rparr>)"
  by (simp add: same_player_iff)

lemmas sp_intros = sp_map_conn sp_set_data sp_udp_send sp_randombytes_buf sp_AUDIO_BUFFER
  sp_CONNECTION_NONCE sp_AUDIO_NONCE

lemma sp_encrypt_lite:
  "same_player w w' \<Longrightarrow> same_player w (encrypt_lite box payload key c cd w')"
  unfolding encrypt_lite_def Let_def
  by (auto split: sum.split option.split prod.split intro!: sp_intros)

lemma sp_encrypt_suffix:
  "same_player w w' \<Longrightarrow> same_player w (encrypt_suffix box rnd payload key c w')"
  unfolding encrypt_suffix_def Let_def
  by (auto split: sum.split option.split prod.split intro!: sp_intros)

lemma sp_encrypt_default:
  "same_player w w' \<Longrightarrow> same_player w (encrypt_default box payload key c w')"
  unfolding encrypt_default_def Let_def
  by (auto split: sum.split option.split prod.split intro!: sp_intros)

lemma sp_encrypt_and_send:
  "same_player w w' \<Longrightarrow> same_player w (encrypt_and_send box rnd m payload key c cd w')"
  unfolding encrypt_and_send_def
  by (simp add: sp_encrypt_lite sp_encrypt_suffix sp_encrypt_default sp_udp_send)

lemma sp_write_header:
  "same_player w w' \<Longrightarrow> same_player w (snd (write_header s t x w'))"
  unfolding write_header_def
  by (auto split: sum.split intro!: sp_intros)

lemma sp_send_packet:
  "same_player w w' \<Longrightarrow> same_player w (snd (send_packet box rnd buffer f c cd w'))"
proof -
  assume a: "same_player w w'"
  have h: "same_player w (snd (write_header s t x (set_data c cd2 (set_data c cd1 w'))))"
    for s t x cd1 cd2
    using a by (intro sp_write_header sp_set_data)
  show ?thesis
    unfolding send_packet_def Let_def
    apply (simp split: option.split prod.split add: a sp_set_data)
    apply (intro allI impI conjI)
     apply (metis h snd_conv sp_encrypt_and_send)
    apply (metis h snd_conv)
    done
qed

lemma sp_send_conn:
  "same_player w w' \<Longrightarrow> same_player w (snd (send_conn box rnd buffer f sil c w'))"
  unfolding send_conn_def Let_def
  by (auto split: option.split prod.split intro!: sp_intros sp_send_packet)

lemma sp_send_loop:
  "same_player w w' \<Longrightarrow> same_player w (snd (send_loop box rnd buffer f sil cs w'))"
proof (induction cs arbitrary: w')
  case Nil
  then show ?case by simp
next
  case (Cons c cs)
  obtain e w1 where s: "send_conn box rnd buffer f sil c w' = (e, w1)"
    by (cases "send_conn box rnd buffer f sil c w'")
  have sp: "same_player w w1"
    using sp_send_conn [OF Cons.prems, of box rnd buffer f sil c] s by simp
  show ?case
  proof (cases e)
    case None
    then show ?thesis using s Cons.IH [OF sp] by simp
  next
    case (Some a)
    then show ?thesis using s sp by simp
  qed
qed

text \<open>What the primitive steps do to the data, the status and the socket of a session.\<close>

lemma data_of_set_data:
  "data_of (set_data c cd w) c' =
     (if c' = c \<and> networking (conns w c) \<noteq> None then Some cd else data_of w c')"
  by (auto simp: data_of_def set_data_def map_conn_def split: option.splits)

lemma data_of_udp_send: "data_of (udp_send c p w) c' = data_of w c'"
  by (auto simp: data_of_def udp_send_def map_conn_def split: option.splits)

lemma data_of_speaking:
  "data_of (map_conn c (\<lambda>k. k\<lparr>speaking := b\<rparr>) w) c' = data_of w c'"
  by (simp add: data_of_def map_conn_def)

lemma data_of_buffers:
  "data_of (w\<lparr>AUDIO_BUFFER := b\<rparr>) c = data_of w c"
  "data_of (w\<lparr>CONNECTION_NONCE := b\<rparr>) c = data_of w c"
  "data_of (w\<lparr>AUDIO_NONCE := b\<rparr>) c = data_of w c"
  "data_of (randombytes_buf rnd w) c = data_of w c"
  by (simp_all add: data_of_def randombytes_buf_def)

lemmas data_of_simps = data_of_set_data data_of_udp_send data_of_speaking data_of_buffers

lemma conns_primitives:
  "conns (w\<lparr>AUDIO_BUFFER := b\<rparr>) = conns w"
  "conns (w\<lparr>CONNECTION_NONCE := b\<rparr>) = conns w"
  "conns (w\<lparr>AUDIO_NONCE := b\<rparr>) = conns w"
  "conns (randombytes_buf rnd w) = conns w"
  by (simp_all add: randombytes_buf_def)

lemma conns_other:
  "c' \<noteq> c \<Longrightarrow> conns (map_conn c f w) c' = conns w c'"
  "c' \<noteq> c \<Longrightarrow> conns (set_data c cd w) c' = conns w c'"
  "c' \<noteq> c \<Longrightarrow> conns (udp_send c p w) c' = conns w c'"
  by (simp_all add: map_conn_def set_data_def udp_send_def)

lemma status_primitives:
  "status (conns (map_conn c (\<lambda>k. k\<lparr>speaking := b\<rparr>) w) c') = status (conns w c')"
  "status (conns (set_data c cd w) c') = status (conns w c')"
  "status (conns (udp_send c p w) c') = status (conns w c')"
  by (simp_all add: map_conn_def set_data_def udp_send_def)

lemma networking_None_primitives:
  "networking (conns (map_conn c (\<lambda>k. k\<lparr>speaking := b\<rparr>) w) c') = networking (conns w c')"
  "networking (conns (set_data c cd w) c') = None \<longleftrightarrow> networking (conns w c') = None"
  "networking (conns (udp_send c p w) c') = None \<longleftrightarrow> networking (conns w c') = None"
  by (simp_all add: map_conn_def set_data_def udp_send_def)

lemma udp_of_primitives:
  "udp_of (map_conn c (\<lambda>k. k\<lparr>speaking := sp\<rparr>) w) c' = udp_of w c'"
  "udp_of (set_data c cd w) c' = udp_of w c'"
  "udp_of (udp_send c p w) c' = None \<longleftrightarrow> udp_of w c' = None"
  "udp_of (w\<lparr>AUDIO_BUFFER := b\<rparr>) c' = udp_of w c'"
  "udp_of (w\<lparr>CONNECTION_NONCE := b\<rparr>) c' = udp_of w c'"
  "udp_of (w\<lparr>AUDIO_NONCE := b\<rparr>) c' = udp_of w c'"
  "udp_of (randombytes_buf rnd w) c' = udp_of w c'"
  by (auto simp: udp_of_def map_conn_def set_data_def udp_send_def randombytes_buf_def
      split: option.splits)


lemma touches_refl: "touches S w w"
  by (simp add: touches_def same_player_refl)

lemma touches_mono: "touches S w w' \<Longrightarrow> S \<subseteq> T \<Longrightarrow> touches T w w'"
  by (auto simp: touches_def)

lemma touches_trans: "touches S w w' \<Longrightarrow> touches S w' w'' \<Longrightarrow> touches S w w''"
  unfolding touches_def by (auto intro: same_player_trans)

lemma touches_same_player: "touches S w w' \<Longrightarrow> same_player w w'"
  by (simp add: touches_def)

lemma conns_notin:
  "c' \<notin> S \<Longrightarrow> c \<in> S \<Longrightarrow> conns (map_conn c f w) c' = conns w c'"
  "c' \<notin> S \<Longrightarrow> c \<in> S \<Longrightarrow> conns (set_data c cd w) c' = conns w c'"
  "c' \<notin> S \<Longrightarrow> c \<in> S \<Longrightarrow> conns (udp_send c p w) c' = conns w c'"
  by (auto simp: map_conn_def set_data_def udp_send_def)

lemma tc_speaking:
  "touches S w w' \<Longrightarrow> c \<in> S \<Longrightarrow> touches S w (map_conn c (\<lambda>k. k\<lparr>speaking := b\<rparr>) w')"
  unfolding touches_def
  by (auto simp: sp_map_conn status_primitives networking_None_primitives udp_of_primitives
      conns_notin)

lemma tc_set_data:
  "touches S w w' \<Longrightarrow> c \<in> S \<Longrightarrow> touches S w (set_data c cd w')"
  unfolding touches_def
  by (auto simp: sp_set_data status_primitives networking_None_primitives udp_of_primitives
      conns_notin)

lemma tc_udp_send:
  "touches S w w' \<Longrightarrow> c \<in> S \<Longrightarrow> touches S w (udp_send c p w')"
  unfolding touches_def
  by (auto simp: sp_udp_send status_primitives networking_None_primitives udp_of_primitives
      conns_notin)

lemma tc_buffers:
  "touches S w w' \<Longrightarrow> touches S w (w'\<lparr>AUDIO_BUFFER := b\<rparr>)"
  "touches S w w' \<Longrightarrow> touches S w (w'\<lparr>CONNECTION_NONCE := b\<rparr>)"
  "touches S w w' \<Longrightarrow> touches S w (w'\<lparr>AUDIO_NONCE := b\<rparr>)"
  "touches S w w' \<Longrightarrow> touches S w (randombytes_buf rnd w')"
  unfolding touches_def
  by (auto simp: sp_intros udp_of_primitives conns_primitives)

lemmas tc_intros = tc_speaking tc_set_data tc_udp_send tc_buffers

lemma tc_encrypt_lite:
  "touches S w w' \<Longrightarrow> c \<in> S \<Longrightarrow> touches S w (encrypt_lite box payload key c cd w')"
  unfolding encrypt_lite_def Let_def
  by (auto split: sum.split option.split prod.split intro!: tc_intros)

lemma tc_encrypt_suffix:
  "touches S w w' \<Longrightarrow> c \<in> S \<Longrightarrow> touches S w (encrypt_suffix box rnd payload key c w')"
  unfolding encrypt_suffix_def Let_def
  by (auto split: sum.split option.split prod.split intro!: tc_intros)

lemma tc_encrypt_default:
  "touches S w w' \<Longrightarrow> c \<in> S \<Longrightarrow> touches S w (encrypt_default box payload key c w')"
  unfolding encrypt_default_def Let_def
  by (auto split: sum.split option.split prod.split intro!: tc_intros)

lemma tc_encrypt_and_send:
  "touches S w w' \<Longrightarrow> c \<in> S
     \<Longrightarrow> touches S w (encrypt_and_send box rnd m payload key c cd w')"
  unfolding encrypt_and_send_def
  by (simp add: tc_encrypt_lite tc_encrypt_suffix tc_encrypt_default tc_udp_send)

lemma tc_write_header:
  "touches S w w' \<Longrightarrow> touches S w (snd (write_header s t x w'))"
  unfolding write_header_def
  by (auto split: sum.split intro!: tc_intros)

lemma tc_send_packet:
  assumes a: "touches S w w'" and c: "c \<in> S"
  shows "touches S w (snd (send_packet box rnd buffer f c cd w'))"
proof -
  have h: "touches S w (snd (write_header s t x (set_data c cd2 (set_data c cd1 w'))))"
    for s t x cd1 cd2
    using a c by (intro tc_write_header tc_set_data)
  show ?thesis
    unfolding send_packet_def Let_def
    apply (simp split: option.split prod.split add: a c tc_set_data)
    apply (intro allI impI conjI)
     apply (metis h snd_conv tc_encrypt_and_send c)
    apply (metis h snd_conv)
    done
qed

lemma tc_send_conn:
  "touches S w w' \<Longrightarrow> c \<in> S \<Longrightarrow> touches S w (snd (send_conn box rnd buffer f sil c w'))"
  unfolding send_conn_def Let_def
  by (auto split: option.split prod.split intro!: tc_intros tc_send_packet)

lemma tc_send_loop:
  "touches S w w' \<Longrightarrow> set cs \<subseteq> S
     \<Longrightarrow> touches S w (snd (send_loop box rnd buffer f sil cs w'))"
proof (induction cs arbitrary: w')
  case Nil
  then show ?case by simp
next
  case (Cons c cs)
  obtain e w1 where s: "send_conn box rnd buffer f sil c w' = (e, w1)"
    by (cases "send_conn box rnd buffer f sil c w'")
  have sp: "touches S w w1"
    using tc_send_conn [OF Cons.prems(1), of c box rnd buffer f sil] s Cons.prems(2) by simp
  show ?case
  proof (cases e)
    case None
    then show ?thesis using s Cons.IH [OF sp] Cons.prems(2) by simp
  next
    case (Some a)
    then show ?thesis using s sp by simp
  qed
qed


text \<open>Buffers.\<close>

lemma length_blit: "off + length src \<le> length dst \<Longrightarrow> length (blit src off dst) = length dst"
  by (simp add: blit_def)

lemma length_u16be: "length (u16be v) = 2"
  by (simp add: u16be_def)

lemma length_u32be: "length (u32be v) = 4"
  by (simp add: u32be_def)

lemma buffer_set_Inr:
  "buffer_set src off dst = Inr b \<longleftrightarrow> off + length src \<le> length dst \<and> b = blit src off dst"
  by (auto simp: buffer_set_def)

lemma buffer_set_Inl:
  "buffer_set src off dst = Inl e \<longleftrightarrow> length dst < off + length src \<and> e = RangeError"
  by (auto simp: buffer_set_def)

lemma writeUInt16BE_Inr:
  "writeUInt16BE v off buf = Inr b \<longleftrightarrow>
     0 \<le> v \<and> v \<le> 65535 \<and> off + 2 \<le> length buf \<and> b = blit (u16be v) off buf"
  by (auto simp: writeUInt16BE_def buffer_set_Inr length_u16be)

lemma writeUInt32BE_Inr:
  "writeUInt32BE v off buf = Inr b \<longleftrightarrow>
     0 \<le> v \<and> v \<le> 4294967295 \<and> off + 4 \<le> length buf \<and> b = blit (u32be v) off buf"
  by (auto simp: writeUInt32BE_def buffer_set_Inr length_u32be)

lemma writeUInt16BE_length: "writeUInt16BE v off buf = Inr b \<Longrightarrow> length b = length buf"
  by (auto simp: writeUInt16BE_Inr length_blit length_u16be)

lemma writeUInt32BE_length: "writeUInt32BE v off buf = Inr b \<Longrightarrow> length b = length buf"
  by (auto simp: writeUInt32BE_Inr length_blit length_u32be)

lemma secretbox_into_Some:
  "secretbox_into box p nb k buf = Some (ab, n) \<longleftrightarrow>
     (\<exists>ct. box p nb k = Some ct \<and> 12 + length ct \<le> length buf
           \<and> ab = blit ct 12 buf \<and> n = length ct)"
  by (auto simp: secretbox_into_def split: option.splits)

lemma secretbox_into_length:
  "secretbox_into box p nb k buf = Some (ab, n) \<Longrightarrow> length ab = length buf"
  by (auto simp: secretbox_into_Some length_blit)

lemma write_header_ok:
  assumes "0 \<le> s" "s \<le> 65535" "0 \<le> t" "t \<le> 4294967295" "0 \<le> x" "x \<le> 4294967295"
    and "12 \<le> length (AUDIO_BUFFER w)"
  shows "write_header s t x w =
     (None, w\<lparr>AUDIO_BUFFER :=
        blit (u32be x) 8 (blit (u32be t) 4 (blit (u16be s) 2 (AUDIO_BUFFER w)))\<rparr>)"
proof -
  let ?b1 = "blit (u16be s) 2 (AUDIO_BUFFER w)"
  let ?b2 = "blit (u32be t) 4 ?b1"
  have 1: "writeUInt16BE s 2 (AUDIO_BUFFER w) = Inr ?b1"
    using assms by (simp add: writeUInt16BE_Inr)
  have l1: "length ?b1 = length (AUDIO_BUFFER w)"
    using assms by (simp add: length_blit length_u16be)
  have 2: "writeUInt32BE t 4 ?b1 = Inr ?b2"
    using assms l1 by (simp add: writeUInt32BE_Inr)
  have l2: "length ?b2 = length (AUDIO_BUFFER w)"
    using assms l1 by (simp add: length_blit length_u32be)
  have 3: "writeUInt32BE x 8 ?b2 = Inr (blit (u32be x) 8 ?b2)"
    using assms l2 by (simp add: writeUInt32BE_Inr)
  show ?thesis by (simp add: write_header_def 1 2 3)
qed

lemma write_header_buffers:
  "length (AUDIO_BUFFER (snd (write_header s t x w))) = length (AUDIO_BUFFER w)"
  "CONNECTION_NONCE (snd (write_header s t x w)) = CONNECTION_NONCE w"
  "AUDIO_NONCE (snd (write_header s t x w)) = AUDIO_NONCE w"
  "RANDOM_BYTES (snd (write_header s t x w)) = RANDOM_BYTES w"
  "conns (snd (write_header s t x w)) = conns w"
  by (auto simp: write_header_def writeUInt16BE_length writeUInt32BE_length split: sum.split)

lemma ba_write_header:
  "buffers_allocated w \<Longrightarrow> buffers_allocated (snd (write_header s t x w))"
  by (simp add: buffers_allocated_def write_header_buffers)

lemma ba_primitives:
  "buffers_allocated (map_conn c f w) = buffers_allocated w"
  "buffers_allocated (set_data c cd w) = buffers_allocated w"
  "buffers_allocated (udp_send c p w) = buffers_allocated w"
  by (simp_all add: buffers_allocated_def map_conn_def set_data_def udp_send_def)

lemma buffers_primitives:
  "AUDIO_BUFFER (map_conn c f w) = AUDIO_BUFFER w"
  "CONNECTION_NONCE (map_conn c f w) = CONNECTION_NONCE w"
  "AUDIO_NONCE (map_conn c f w) = AUDIO_NONCE w"
  "RANDOM_BYTES (map_conn c f w) = RANDOM_BYTES w"
  "AUDIO_BUFFER (set_data c cd w) = AUDIO_BUFFER w"
  "CONNECTION_NONCE (set_data c cd w) = CONNECTION_NONCE w"
  "AUDIO_NONCE (set_data c cd w) = AUDIO_NONCE w"
  "RANDOM_BYTES (set_data c cd w) = RANDOM_BYTES w"
  "AUDIO_BUFFER (udp_send c p w) = AUDIO_BUFFER w"
  "CONNECTION_NONCE (udp_send c p w) = CONNECTION_NONCE w"
  "AUDIO_NONCE (udp_send c p w) = AUDIO_NONCE w"
  "RANDOM_BYTES (udp_send c p w) = RANDOM_BYTES w"
  by (simp_all add: map_conn_def set_data_def udp_send_def)

lemma ba_randombytes_buf: "buffers_allocated w \<Longrightarrow> buffers_allocated (randombytes_buf rnd w)"
  by (simp add: buffers_allocated_def randombytes_buf_def)

lemma ba_encrypt_lite:
  assumes "buffers_allocated w"
  shows "buffers_allocated (encrypt_lite box payload key c cd w)"
proof -
  let ?w1 = "set_data c (cd\<lparr>nonce := Some (next_nonce (nonce cd))\<rparr>) w"
  have w1: "buffers_allocated ?w1" using assms by (simp add: ba_primitives)
  show ?thesis
    unfolding encrypt_lite_def Let_def
    using w1
    by (auto split: sum.split option.split prod.split
        simp: buffers_primitives buffers_allocated_def writeUInt32BE_length
          secretbox_into_length buffer_set_Inr length_blit)
qed

lemma ba_encrypt_suffix:
  assumes "buffers_allocated w"
  shows "buffers_allocated (encrypt_suffix box rnd payload key c w)"
proof -
  have w1: "buffers_allocated (randombytes_buf rnd w)"
    using assms by (rule ba_randombytes_buf)
  show ?thesis
    unfolding encrypt_suffix_def Let_def
    using w1
    by (auto split: sum.split option.split prod.split
        simp: buffers_primitives buffers_allocated_def secretbox_into_length
          buffer_set_Inr length_blit)
qed

lemma ba_encrypt_default:
  assumes "buffers_allocated w"
  shows "buffers_allocated (encrypt_default box payload key c w)"
  unfolding encrypt_default_def Let_def
  using assms
  by (auto split: sum.split option.split prod.split
      simp: buffers_primitives buffers_allocated_def secretbox_into_length blit_def)

lemma ba_encrypt_and_send:
  "buffers_allocated w \<Longrightarrow> buffers_allocated (encrypt_and_send box rnd m payload key c cd w)"
  unfolding encrypt_and_send_def
  by (simp add: ba_encrypt_lite ba_encrypt_suffix ba_encrypt_default ba_primitives)

lemma ba_send_packet:
  assumes "buffers_allocated w"
  shows "buffers_allocated (snd (send_packet box rnd buffer f c cd w))"
proof -
  have h: "buffers_allocated (snd (write_header s t x (set_data c cd2 (set_data c cd1 w))))"
    for s t x cd1 cd2
    using assms by (intro ba_write_header) (simp add: ba_primitives)
  show ?thesis
    unfolding send_packet_def Let_def
    apply (simp split: option.split prod.split add: assms ba_primitives)
    apply (intro allI impI conjI)
     apply (metis h snd_conv ba_encrypt_and_send)
    apply (metis h snd_conv)
    done
qed

lemma ba_send_conn:
  "buffers_allocated w \<Longrightarrow> buffers_allocated (snd (send_conn box rnd buffer f sil c w))"
  unfolding send_conn_def Let_def
  by (auto split: option.split prod.split simp: ba_primitives intro!: ba_send_packet)

text \<open>The connection data after the steps of the codec.\<close>

lemma data_of_write_header: "data_of (snd (write_header s t x w)) c = data_of w c"
  by (simp add: data_of_def write_header_buffers)

lemma data_of_encrypt_lite:
  "data_of (encrypt_lite box payload key c cd w) c' =
     (if c' = c \<and> networking (conns w c) \<noteq> None
      then Some (cd\<lparr>nonce := Some (next_nonce (nonce cd))\<rparr>) else data_of w c')"
  unfolding encrypt_lite_def Let_def
  by (auto split: sum.split option.split prod.split simp: data_of_simps)

lemma data_of_encrypt_suffix:
  "data_of (encrypt_suffix box rnd payload key c w) c' = data_of w c'"
  unfolding encrypt_suffix_def Let_def
  by (auto split: sum.split option.split prod.split simp: data_of_simps)

lemma data_of_encrypt_default:
  "data_of (encrypt_default box payload key c w) c' = data_of w c'"
  unfolding encrypt_default_def Let_def
  by (auto split: sum.split option.split prod.split simp: data_of_simps)

lemma data_of_encrypt_and_send:
  "data_of (encrypt_and_send box rnd m payload key c cd w) c' =
     (if m = LITE \<and> c' = c \<and> networking (conns w c) \<noteq> None
      then Some (cd\<lparr>nonce := Some (next_nonce (nonce cd))\<rparr>) else data_of w c')"
  unfolding encrypt_and_send_def
  by (auto simp: data_of_encrypt_lite data_of_encrypt_suffix data_of_encrypt_default
      data_of_simps)

lemma resolve_mode_Some:
  "resolve_mode cd = Some (m, cd1) \<Longrightarrow> cd1 = cd\<lparr>encryption_mode := Some m\<rparr> \<and> m \<noteq> 0"
  by (auto simp: resolve_mode_def Let_def mode_of_string_def LITE_def SUFFIX_def DEFAULT_def
      split: option.splits if_splits)

lemma resolve_mode_cached:
  "m \<noteq> 0 \<Longrightarrow> encryption_mode cd = Some m \<Longrightarrow> resolve_mode cd = Some (m, cd)"
  by (simp add: resolve_mode_def Let_def)


lemma networking_write_header:
  "networking (conns (snd (write_header s t x w)) c) = networking (conns w c)"
  by (simp add: write_header_buffers)

text \<open>
  The step of the codec on the connection data, when the required fields are
  there: the two counters are stepped, the mode is cached, and the nonce is
  stepped in the LITE mode unless a header write threw.
\<close>

lemma send_packet_data:
  assumes net: "networking (conns w c) \<noteq> None"
    and rm: "resolve_mode cd = Some (m, cd1)"
    and f: "sequence cd = Some s" "timestamp cd = Some t" "ssrc cd = Some x" "secretKey cd = Some k"
  shows "\<exists>cd'. data_of (snd (send_packet box rnd buffer fs c cd w)) c = Some cd'
     \<and> sequence cd' = Some (next_sequence s) \<and> timestamp cd' = Some (next_timestamp t fs)
     \<and> ssrc cd' = Some x \<and> secretKey cd' = Some k \<and> encryptionMode cd' = encryptionMode cd
     \<and> encryption_mode cd' = Some m
     \<and> (nonce cd' = nonce cd \<or> (m = LITE \<and> nonce cd' = Some (next_nonce (nonce cd))))"
proof -
  have cd1: "cd1 = cd\<lparr>encryption_mode := Some m\<rparr>"
    using resolve_mode_Some [OF rm] by simp
  let ?cd2 = "cd1\<lparr>sequence := Some (next_sequence s), timestamp := Some (next_timestamp t fs)\<rparr>"
  let ?w2 = "set_data c ?cd2 (set_data c cd1 w)"
  have net2: "networking (conns ?w2 c) \<noteq> None"
    using net by (simp add: networking_None_primitives)
  have d2: "data_of ?w2 c = Some ?cd2"
    using net by (simp add: data_of_simps networking_None_primitives)
  obtain e w3 where wh: "write_header (next_sequence s) (next_timestamp t fs) x ?w2 = (e, w3)"
    by (cases "write_header (next_sequence s) (next_timestamp t fs) x ?w2")
  have d3: "data_of w3 c = Some ?cd2"
    using data_of_write_header [of "next_sequence s" "next_timestamp t fs" x ?w2 c] wh d2
    by simp
  have net3: "networking (conns w3 c) \<noteq> None"
    using networking_write_header [of "next_sequence s" "next_timestamp t fs" x ?w2 c] wh net2
    by simp
  have sp: "snd (send_packet box rnd buffer fs c cd w) =
      (case e of Some err \<Rightarrow> w3
               | None \<Rightarrow> encrypt_and_send box rnd m buffer k c ?cd2 w3)"
    using rm f wh by (simp add: send_packet_def Let_def cd1 split: option.split)
  show ?thesis
  proof (cases e)
    case (Some err)
    then show ?thesis using sp d3 f by (simp add: cd1)
  next
    case None
    then have "data_of (snd (send_packet box rnd buffer fs c cd w)) c =
        (if m = LITE then Some (?cd2\<lparr>nonce := Some (next_nonce (nonce ?cd2))\<rparr>) else Some ?cd2)"
      using sp d3 net3 by (simp add: data_of_encrypt_and_send)
    then show ?thesis using f by (simp add: cd1)
  qed
qed

lemma codec_pathD:
  assumes "codec_path sil c w"
  obtains net cd u m cd1 s t x k where
    "status (conns w c) = Ready" "networking (conns w c) = Some net"
    "connectionData net = Some cd" "udp net = Some u" "data_of w c = Some cd"
    "\<not> (external_encrypt w \<and> \<not> sil)" "resolve_mode cd = Some (m, cd1)"
    "sequence cd = Some s" "timestamp cd = Some t" "ssrc cd = Some x" "secretKey cd = Some k"
  using assms unfolding codec_path_def data_of_def udp_of_def
  by (auto split: option.splits)

lemma send_conn_codec:
  assumes "codec_path sil c w" "data_of w c = Some cd"
  shows "send_conn box rnd buffer fs sil c w =
           send_packet box rnd buffer fs c cd (map_conn c (\<lambda>k. k\<lparr>speaking := True\<rparr>) w)"
  using assms unfolding codec_path_def data_of_def udp_of_def send_conn_def Let_def
  by (auto simp: map_conn_def split: option.splits)

lemma send_conn_data:
  assumes cp: "codec_path sil c w" and d: "data_of w c = Some cd"
    and f: "sequence cd = Some s" "timestamp cd = Some t"
  shows "\<exists>cd' m. data_of (snd (send_conn box rnd buffer fs sil c w)) c = Some cd'
     \<and> sequence cd' = Some (next_sequence s) \<and> timestamp cd' = Some (next_timestamp t fs)
     \<and> ssrc cd' = ssrc cd \<and> secretKey cd' = secretKey cd
     \<and> encryptionMode cd' = encryptionMode cd
     \<and> encryption_mode cd' = Some m \<and> m \<noteq> 0
     \<and> resolve_mode cd = Some (m, cd\<lparr>encryption_mode := Some m\<rparr>)
     \<and> (nonce cd' = nonce cd \<or> (m = LITE \<and> nonce cd' = Some (next_nonce (nonce cd))))"
proof -
  from cp obtain m cd1 x k where
    h: "networking (conns w c) \<noteq> None" "resolve_mode cd = Some (m, cd1)"
       "ssrc cd = Some x" "secretKey cd = Some k"
    using d by (elim codec_pathD) auto
  let ?w1 = "map_conn c (\<lambda>k. k\<lparr>speaking := True\<rparr>) w"
  have n1: "networking (conns ?w1 c) \<noteq> None"
    using h(1) by (simp add: networking_None_primitives)
  have e: "send_conn box rnd buffer fs sil c w = send_packet box rnd buffer fs c cd ?w1"
    using cp d by (rule send_conn_codec)
  from send_packet_data [OF n1 h(2) f h(3,4), of box rnd buffer fs]
  obtain cd' where
    "data_of (snd (send_packet box rnd buffer fs c cd ?w1)) c = Some cd'"
    "sequence cd' = Some (next_sequence s)" "timestamp cd' = Some (next_timestamp t fs)"
    "ssrc cd' = Some x" "secretKey cd' = Some k" "encryptionMode cd' = encryptionMode cd"
    "encryption_mode cd' = Some m"
    "nonce cd' = nonce cd \<or> (m = LITE \<and> nonce cd' = Some (next_nonce (nonce cd)))"
    by blast
  then show ?thesis
    using e h resolve_mode_Some [OF h(2)] by auto
qed


text \<open>The counters stay in range.\<close>

lemma next_sequence_range: "0 \<le> s \<Longrightarrow> 0 \<le> next_sequence s \<and> next_sequence s \<le> 65535"
  by (simp add: next_sequence_def Let_def)

lemma next_timestamp_range:
  "0 \<le> t \<Longrightarrow> 0 \<le> f \<Longrightarrow> 0 \<le> next_timestamp t f \<and> next_timestamp t f \<le> 4294967295"
  by (simp add: next_timestamp_def Let_def)

lemma next_nonce_range: "u32 n \<Longrightarrow> 0 \<le> next_nonce n \<and> next_nonce n \<le> 4294967295"
  by (auto simp: next_nonce_def u32_def Let_def split: option.splits)

lemma next_sequence_mod: "0 \<le> s \<Longrightarrow> s \<le> 65535 \<Longrightarrow> next_sequence s = (s + 1) mod 65536"
  by (simp add: next_sequence_def Let_def)

lemma next_nonce_mod:
  "0 \<le> n \<Longrightarrow> n \<le> 4294967295 \<Longrightarrow> next_nonce (Some n) = (n + 1) mod 4294967296"
  by (simp add: next_nonce_def Let_def)

text \<open>The datagrams of a session.\<close>

lemma sent_of_primitives:
  "sent_of (map_conn c (\<lambda>k. k\<lparr>speaking := sp\<rparr>) w) c' = sent_of w c'"
  "sent_of (set_data c cd w) c' = sent_of w c'"
  "sent_of (w\<lparr>AUDIO_BUFFER := b\<rparr>) c' = sent_of w c'"
  "sent_of (w\<lparr>CONNECTION_NONCE := b\<rparr>) c' = sent_of w c'"
  "sent_of (w\<lparr>AUDIO_NONCE := b\<rparr>) c' = sent_of w c'"
  "sent_of (randombytes_buf rnd w) c' = sent_of w c'"
  by (auto simp: sent_of_def udp_of_def map_conn_def set_data_def randombytes_buf_def
      split: option.splits)

lemma sent_of_udp_send:
  "udp_of w c \<noteq> None \<Longrightarrow> sent_of (udp_send c p w) c = sent_of w c @ [p]"
  by (auto simp: sent_of_def udp_of_def udp_send_def map_conn_def split: option.splits)

lemma sent_of_write_header: "sent_of (snd (write_header s t x w)) c = sent_of w c"
  by (simp add: sent_of_def udp_of_def write_header_buffers)

lemma udp_of_write_header: "udp_of (snd (write_header s t x w)) c = udp_of w c"
  by (simp add: udp_of_def write_header_buffers)

lemma take_blit_suffix:
  assumes "12 + length ct + length sfx \<le> length ab"
  shows "take (12 + length ct + length sfx) (blit sfx (12 + length ct) (blit ct 12 ab))
           = take 12 ab @ ct @ sfx"
  using assms by (simp add: blit_def)

text \<open>The LITE case of the switch, when nothing throws.\<close>

lemma encrypt_lite_packet:
  assumes n: "0 \<le> next_nonce (nonce cd)" "next_nonce (nonce cd) \<le> 4294967295"
    and len: "length (CONNECTION_NONCE w) = 24"
    and nb: "nb = blit (u32be (next_nonce (nonce cd))) 0 (CONNECTION_NONCE w)"
    and bx: "box payload nb key = Some ct"
    and fit: "12 + length ct + 4 \<le> length (AUDIO_BUFFER w)"
    and u: "udp_of w c \<noteq> None"
  shows "sent_of (encrypt_lite box payload key c cd w) c =
           sent_of w c @ [take 12 (AUDIO_BUFFER w) @ ct @ take 4 nb]"
    and "CONNECTION_NONCE (encrypt_lite box payload key c cd w) = nb"
proof -
  let ?n2 = "next_nonce (nonce cd)"
  let ?w1 = "set_data c (cd\<lparr>nonce := Some ?n2\<rparr>) w"
  have wr: "writeUInt32BE ?n2 0 (CONNECTION_NONCE ?w1) = Inr nb"
    using n len nb by (simp add: writeUInt32BE_Inr buffers_primitives)
  have lnb: "length nb = 24"
    using nb len by (simp add: length_blit length_u32be)
  let ?ab = "blit ct 12 (AUDIO_BUFFER w)"
  have sb: "secretbox_into box payload nb key (AUDIO_BUFFER (?w1\<lparr>CONNECTION_NONCE := nb\<rparr>))
              = Some (?ab, length ct)"
    using bx fit by (simp add: secretbox_into_Some buffers_primitives)
  have lab: "length ?ab = length (AUDIO_BUFFER w)"
    using fit by (simp add: length_blit)
  have bs: "buffer_set (take 4 nb) (12 + length ct) ?ab
              = Inr (blit (take 4 nb) (12 + length ct) ?ab)"
    using fit lab lnb by (simp add: buffer_set_Inr)
  have pk: "take (12 + length ct + 4) (blit (take 4 nb) (12 + length ct) ?ab)
              = take 12 (AUDIO_BUFFER w) @ ct @ take 4 nb"
    using take_blit_suffix [of ct "take 4 nb" "AUDIO_BUFFER w"] fit lnb by simp
  have u1: "udp_of (?w1\<lparr>CONNECTION_NONCE := nb, AUDIO_BUFFER := ?ab,
                AUDIO_BUFFER := blit (take 4 nb) (12 + length ct) ?ab\<rparr>) c \<noteq> None"
    using u by (simp add: udp_of_primitives)
  have e: "encrypt_lite box payload key c cd w =
      udp_send c (take 12 (AUDIO_BUFFER w) @ ct @ take 4 nb)
        (?w1\<lparr>CONNECTION_NONCE := nb, AUDIO_BUFFER := ?ab,
               AUDIO_BUFFER := blit (take 4 nb) (12 + length ct) ?ab\<rparr>)"
    unfolding encrypt_lite_def Let_def
    using wr sb bs pk by simp
  show "sent_of (encrypt_lite box payload key c cd w) c =
           sent_of w c @ [take 12 (AUDIO_BUFFER w) @ ct @ take 4 nb]"
    unfolding e using sent_of_udp_send [OF u1] by (simp add: sent_of_primitives)
  show "CONNECTION_NONCE (encrypt_lite box payload key c cd w) = nb"
    unfolding e by (simp add: buffers_primitives)
qed

lemma take_header:
  assumes "12 \<le> length ab"
  shows "take 12 (blit (u32be x) 8 (blit (u32be t) 4 (blit (u16be s) 2 ab)))
           = take 2 ab @ u16be s @ u32be t @ u32be x"
  using assms by (simp add: blit_def length_u16be length_u32be take_drop)

lemma split_byte: "(v::int) div 256 * 256 + v mod 256 = v"
  by simp

lemma be_value_u32be:
  assumes "0 \<le> v" "v \<le> 4294967295"
  shows "be_value (u32be v) = v"
proof -
  define a where "a = v div 256"
  define b where "b = a div 256"
  define c where "c = b div 256"
  have d16: "v div 65536 = b"
    unfolding b_def a_def using zdiv_zmult2_eq [of 256 v 256] by simp
  have d24: "v div 16777216 = c"
    unfolding c_def b_def a_def
    using zdiv_zmult2_eq [of 256 v 256] zdiv_zmult2_eq [of 256 "v div 256" 256]
      zdiv_zmult2_eq [of 65536 v 256] by simp
  have c0: "0 \<le> c" "c < 256"
    using assms d24 [symmetric] by (simp_all add: pos_imp_zdiv_nonneg_iff div_less_iff_less_mult)
  then have cm: "c mod 256 = c" by simp
  have "be_value (u32be v) =
      ((v div 16777216 mod 256 * 256 + v div 65536 mod 256) * 256 + v div 256 mod 256) * 256
        + v mod 256"
    by (simp add: be_value_def u32be_def uint_word_of_int)
  also have "\<dots> = ((c * 256 + b mod 256) * 256 + a mod 256) * 256 + v mod 256"
    by (simp add: d16 d24 cm a_def)
  also have "c * 256 + b mod 256 = b" unfolding c_def by (rule split_byte)
  also have "b * 256 + a mod 256 = a" unfolding b_def by (rule split_byte)
  also have "a * 256 + v mod 256 = v" unfolding a_def by (rule split_byte)
  finally show ?thesis .
qed

lemma be_value_u16be:
  assumes "0 \<le> v" "v \<le> 65535"
  shows "be_value (u16be v) = v"
proof -
  define a where "a = v div 256"
  have a0: "0 \<le> a" "a < 256"
    using assms unfolding a_def by (simp_all add: pos_imp_zdiv_nonneg_iff div_less_iff_less_mult)
  then have am: "a mod 256 = a" by simp
  have "be_value (u16be v) = v div 256 mod 256 * 256 + v mod 256"
    by (simp add: be_value_def u16be_def uint_word_of_int)
  also have "\<dots> = a mod 256 * 256 + v mod 256" by (simp add: a_def)
  also have "\<dots> = a * 256 + v mod 256" by (simp only: am)
  also have "\<dots> = v" unfolding a_def by (rule split_byte)
  finally show ?thesis .
qed


lemma blit_front: "blit src 0 dst = src @ drop (length src) dst"
  by (simp add: blit_def)

lemma encrypt_lite_nonce_buffer:
  assumes "0 \<le> next_nonce (nonce cd)" "next_nonce (nonce cd) \<le> 4294967295"
    and "length (CONNECTION_NONCE w) = 24"
  shows "CONNECTION_NONCE (encrypt_lite box payload key c cd w)
           = u32be (next_nonce (nonce cd)) @ drop 4 (CONNECTION_NONCE w)"
proof -
  let ?n2 = "next_nonce (nonce cd)"
  let ?w1 = "set_data c (cd\<lparr>nonce := Some ?n2\<rparr>) w"
  let ?nb = "u32be ?n2 @ drop 4 (CONNECTION_NONCE w)"
  have wr: "writeUInt32BE ?n2 0 (CONNECTION_NONCE w) = Inr ?nb"
    using assms by (simp add: writeUInt32BE_Inr blit_front length_u32be)
  show ?thesis
    unfolding encrypt_lite_def Let_def
    by (simp add: wr buffers_primitives split: option.split prod.split sum.split)
qed

text \<open>A send in the LITE mode, on the path of the codec, with counters in range.\<close>

lemma send_conn_lite:
  assumes cp: "codec_path sil c w" and ba: "buffers_allocated w"
    and d: "data_of w c = Some cd" and rng: "counters_in_range cd"
    and lite: "resolve_mode cd = Some (LITE, cd1)"
    and fs: "0 \<le> fs"
    and v: "sequence cd = Some s" "timestamp cd = Some t" "ssrc cd = Some x"
      "secretKey cd = Some key"
    and nb: "nb = u32be (next_nonce (nonce cd)) @ drop 4 (CONNECTION_NONCE w)"
  shows "fst (send_conn box rnd buffer fs sil c w) = None"
    and "CONNECTION_NONCE (snd (send_conn box rnd buffer fs sil c w)) = nb"
    and "\<exists>cd'. data_of (snd (send_conn box rnd buffer fs sil c w)) c = Some cd'
           \<and> nonce cd' = Some (next_nonce (nonce cd))"
    and "box buffer nb key = Some ct \<Longrightarrow> length ct + 16 \<le> 8192 \<Longrightarrow>
         sent_of (snd (send_conn box rnd buffer fs sil c w)) c =
           sent_of w c @ [take 2 (AUDIO_BUFFER w) @ u16be (next_sequence s)
              @ u32be (next_timestamp t fs) @ u32be x @ ct @ take 4 nb]"
proof -
  let ?w1 = "map_conn c (\<lambda>k. k\<lparr>speaking := True\<rparr>) w"
  have e: "send_conn box rnd buffer fs sil c w = send_packet box rnd buffer fs c cd ?w1"
    using cp d by (rule send_conn_codec)
  have cd1: "cd1 = cd\<lparr>encryption_mode := Some LITE\<rparr>"
    using resolve_mode_Some [OF lite] by simp
  let ?s = "next_sequence s" and ?t = "next_timestamp t fs"
  let ?cd2 = "cd1\<lparr>sequence := Some ?s, timestamp := Some ?t\<rparr>"
  let ?w2 = "set_data c ?cd2 (set_data c cd1 ?w1)"
  let ?hdr = "blit (u32be x) 8 (blit (u32be ?t) 4 (blit (u16be ?s) 2 (AUDIO_BUFFER w)))"
  have r: "0 \<le> s" "0 \<le> t" "0 \<le> x" "x \<le> 4294967295" "u32 (nonce cd)"
    using rng v by (simp_all add: counters_in_range_def u16_def u32_def)
  have len: "length (AUDIO_BUFFER w) = 8192" "length (CONNECTION_NONCE w) = 24"
    using ba by (simp_all add: buffers_allocated_def)
  have ab2: "AUDIO_BUFFER ?w2 = AUDIO_BUFFER w" by (simp add: buffers_primitives)
  have wh: "write_header ?s ?t x ?w2 = (None, ?w2\<lparr>AUDIO_BUFFER := ?hdr\<rparr>)"
    using write_header_ok [of ?s ?t x ?w2] next_sequence_range [OF r(1)]
      next_timestamp_range [OF r(2) fs] r(3,4) len ab2 by simp
  let ?w3 = "?w2\<lparr>AUDIO_BUFFER := ?hdr\<rparr>"
  have sp: "send_packet box rnd buffer fs c cd ?w1 =
      (None, encrypt_lite box buffer key c ?cd2 ?w3)"
    using lite v wh by (simp add: send_packet_def Let_def cd1 encrypt_and_send_def)
  show "fst (send_conn box rnd buffer fs sil c w) = None"
    by (simp add: e sp)
  have nn: "nonce ?cd2 = nonce cd" by (simp add: cd1)
  have nr: "0 \<le> next_nonce (nonce ?cd2)" "next_nonce (nonce ?cd2) \<le> 4294967295"
    using next_nonce_range [OF r(5)] nn by simp_all
  have cn3: "CONNECTION_NONCE ?w3 = CONNECTION_NONCE w" by (simp add: buffers_primitives)
  show "CONNECTION_NONCE (snd (send_conn box rnd buffer fs sil c w)) = nb"
    using encrypt_lite_nonce_buffer [OF nr, of ?w3 box buffer key c] len cn3 nb nn
    by (simp add: e sp)
  have "networking (conns ?w3 c) \<noteq> None"
    using cp by (auto simp: codec_path_def udp_of_def networking_None_primitives
        split: option.splits)
  then show "\<exists>cd'. data_of (snd (send_conn box rnd buffer fs sil c w)) c = Some cd'
           \<and> nonce cd' = Some (next_nonce (nonce cd))"
    using nn by (simp add: e sp data_of_encrypt_lite)
  assume bx: "box buffer nb key = Some ct" and fit: "length ct + 16 \<le> 8192"
  have lh: "length ?hdr = 8192"
    using len by (simp add: length_blit length_u16be length_u32be)
  have u0: "udp_of w c \<noteq> None" using cp by (simp add: codec_path_def)
  have u3: "udp_of ?w3 c \<noteq> None" using u0 by (simp add: udp_of_primitives)
  have nb3: "nb = blit (u32be (next_nonce (nonce ?cd2))) 0 (CONNECTION_NONCE ?w3)"
    using nb nn cn3 by (simp add: blit_front length_u32be)
  have "sent_of (encrypt_lite box buffer key c ?cd2 ?w3) c =
      sent_of ?w3 c @ [take 12 (AUDIO_BUFFER ?w3) @ ct @ take 4 nb]"
    using nr len cn3 nb3 bx fit lh u3
    by (intro encrypt_lite_packet(1)) simp_all
  moreover have "sent_of ?w3 c = sent_of w c" by (simp add: sent_of_primitives)
  moreover have "take 12 (AUDIO_BUFFER ?w3) = take 2 (AUDIO_BUFFER w) @ u16be ?s @ u32be ?t @ u32be x"
    using take_header [of "AUDIO_BUFFER w" x ?t ?s] len by simp
  ultimately show "sent_of (snd (send_conn box rnd buffer fs sil c w)) c =
           sent_of w c @ [take 2 (AUDIO_BUFFER w) @ u16be (next_sequence s)
              @ u32be (next_timestamp t fs) @ u32be x @ ct @ take 4 nb]"
    by (simp add: e sp)
qed


lemma next_nonce_undefined_mod:
  "u32 n \<Longrightarrow> next_nonce n = ((case n of None \<Rightarrow> 0 | Some v \<Rightarrow> v) + 1) mod 4294967296"
  by (auto simp: next_nonce_def u32_def Let_def split: option.splits)

lemma playing_world_facts:
  "codec_path True 0 playing_world"
  "buffers_allocated playing_world"
  "data_of playing_world 0 = Some data_max"
  "counters_in_range data_max"
  "resolve_mode data_max = Some (LITE, data_max\<lparr>encryption_mode := Some LITE\<rparr>)"
  "sent_of playing_world 0 = []"
  "CONNECTION_NONCE playing_world = replicate 24 0"
  by (simp_all add: codec_path_def buffers_allocated_def data_of_def udp_of_def sent_of_def
      playing_world_def new_player_def session_max_def data_max_def resolve_mode_def
      mode_of_string_def counters_in_range_def u16_def u32_def Let_def)

text \<open>
  Claim C1, as stated, fails: from 4294967295 a silence frame of size 960 puts
  the timestamp at 0, while 4294967295 + 960 is 959 modulo 2^32.
\<close>

theorem send_timestamp_not_modulo:
  "Option.bind (data_of (snd (send_conn tag_box no_random SILENCE 960 True 0 playing_world)) 0)
     timestamp = Some 0
   \<and> Some (0::int) \<noteq> Some ((4294967295 + 960) mod 4294967296)"
proof -
  have "sequence data_max = Some 65535" "timestamp data_max = Some 4294967295"
    by (simp_all add: data_max_def)
  from send_conn_data [OF playing_world_facts(1,3) this, of tag_box no_random SILENCE 960]
  obtain cd' where
    "data_of (snd (send_conn tag_box no_random SILENCE 960 True 0 playing_world)) 0 = Some cd'"
    "timestamp cd' = Some (next_timestamp 4294967295 960)"
    by blast
  then show ?thesis by (simp add: next_timestamp_def)
qed

text \<open>
  Claim C1, amended. A send that reaches the codec for a session puts the
  timestamp of the session at the old value plus the frame size when that sum
  is at most 4294967295, and at 0 otherwise. This is the sum modulo 2^32 as long
  as the sum is at most 2^32; from 4294967295 every frame size from 1 on gives
  0; and a timestamp and frame size that are not negative give a timestamp
  between 0 and 4294967295.
\<close>

theorem send_timestamp_reset:
  assumes "codec_path isSilence c w" and "data_of w c = Some cd" and "timestamp cd = Some t"
  shows "\<exists>cd'. data_of (snd (send_conn box rnd buffer f isSilence c w)) c = Some cd'
     \<and> timestamp cd' = Some (if t + f > 4294967295 then 0 else t + f)
     \<and> (0 \<le> t \<and> 0 \<le> f \<and> t + f \<le> 4294967296
          \<longrightarrow> timestamp cd' = Some ((t + f) mod 4294967296))
     \<and> (t = 4294967295 \<and> 1 \<le> f \<longrightarrow> timestamp cd' = Some 0)
     \<and> (0 \<le> t \<and> 0 \<le> f \<longrightarrow> u32 (timestamp cd'))"
proof -
  obtain s where s: "sequence cd = Some s"
    using assms(1,2) by (elim codec_pathD) auto
  from send_conn_data [OF assms(1,2) s assms(3), of box rnd buffer f]
  obtain cd' where cd':
    "data_of (snd (send_conn box rnd buffer f isSilence c w)) c = Some cd'"
    "timestamp cd' = Some (next_timestamp t f)"
    by blast
  have 1: "next_timestamp t f = (if t + f > 4294967295 then 0 else t + f)"
    by (simp add: next_timestamp_def Let_def)
  have 2: "next_timestamp t f = (t + f) mod 4294967296"
    if "0 \<le> t \<and> 0 \<le> f \<and> t + f \<le> 4294967296"
  proof (cases "t + f = 4294967296")
    case True
    then show ?thesis by (simp add: 1)
  next
    case False
    then have "0 \<le> t + f" "t + f < 4294967296" using that by simp_all
    then show ?thesis by (simp add: 1)
  qed
  have 3: "u32 (Some (next_timestamp t f))" if "0 \<le> t \<and> 0 \<le> f"
    using that next_timestamp_range [of t f] by (simp add: u32_def)
  show ?thesis
    using cd' 1 2 3 by (intro exI [of _ cd']) auto
qed

theorem send_timestamp_reset_witness:
  "codec_path True 0 playing_world \<and> data_of playing_world 0 = Some data_max
   \<and> timestamp data_max = Some 4294967295
   \<and> (\<exists>cd'. data_of (snd (send_conn tag_box no_random SILENCE 960 True 0 playing_world)) 0
                 = Some cd' \<and> timestamp cd' = Some 0)"
proof -
  have t: "timestamp data_max = Some 4294967295" by (simp add: data_max_def)
  from send_timestamp_reset [OF playing_world_facts(1,3) t, of tag_box no_random SILENCE 960]
  show ?thesis using playing_world_facts(1,3) t by auto
qed

text \<open>
  Claim C5. A send in the LITE mode that reaches the codec, with counters in
  range, steps the nonce by one modulo 2^32 (an undefined nonce counting as 0),
  so that 4294967295 is followed by 0. The 24-byte nonce buffer then holds the
  big-endian bytes of the new nonce in its first four places. Whatever the
  cipher is, when it returns a ciphertext for the payload, this nonce buffer and
  the key, and the ciphertext fits, the datagram handed to the socket is the
  12-byte header, the ciphertext, and the first four bytes of that nonce buffer.
\<close>

theorem lite_nonce_appended:
  assumes "codec_path isSilence c w" and "buffers_allocated w"
    and "data_of w c = Some cd" and "counters_in_range cd"
    and "resolve_mode cd = Some (LITE, cd1)" and "0 \<le> frameSize"
    and "secretKey cd = Some key"
    and "n = (case nonce cd of None \<Rightarrow> 0 | Some v \<Rightarrow> v)"
    and "nb = u32be ((n + 1) mod 4294967296) @ drop 4 (CONNECTION_NONCE w)"
    and "w' = snd (send_conn box rnd buffer frameSize isSilence c w)"
  shows "(\<exists>cd'. data_of w' c = Some cd' \<and> nonce cd' = Some ((n + 1) mod 4294967296))
     \<and> (n = 4294967295 \<longrightarrow> (\<exists>cd'. data_of w' c = Some cd' \<and> nonce cd' = Some 0))
     \<and> CONNECTION_NONCE w' = nb \<and> length nb = 24
     \<and> take 4 nb = u32be ((n + 1) mod 4294967296)
     \<and> be_value (take 4 nb) = (n + 1) mod 4294967296
     \<and> (\<forall>ct. box buffer nb key = Some ct \<and> length ct + 16 \<le> 8192 \<longrightarrow>
           (\<exists>hdr. length hdr = 12 \<and> sent_of w' c = sent_of w c @ [hdr @ ct @ take 4 nb]))"
proof -
  obtain s t x where v: "sequence cd = Some s" "timestamp cd = Some t" "ssrc cd = Some x"
    using assms(1,3) by (elim codec_pathD) auto
  have un: "u32 (nonce cd)" using assms(4) by (simp add: counters_in_range_def)
  have nn: "next_nonce (nonce cd) = (n + 1) mod 4294967296"
    using next_nonce_undefined_mod [OF un] assms(8) by simp
  have nb: "nb = u32be (next_nonce (nonce cd)) @ drop 4 (CONNECTION_NONCE w)"
    using assms(9) nn by simp
  note L = send_conn_lite [where box = box and rnd = rnd and buffer = buffer,
      OF assms(1,2,3,4,5,6) v assms(7) nb]
  have r: "0 \<le> (n + 1) mod 4294967296" "(n + 1) mod 4294967296 \<le> 4294967295"
    by simp_all
  have d: "\<exists>cd'. data_of w' c = Some cd' \<and> nonce cd' = Some ((n + 1) mod 4294967296)"
    using L(3) nn assms(10) by simp
  have len: "length nb = 24"
    using assms(2,9) by (simp add: buffers_allocated_def length_u32be)
  have tk: "take 4 nb = u32be ((n + 1) mod 4294967296)"
    using assms(9) by (simp add: length_u32be)
  have bv: "be_value (take 4 nb) = (n + 1) mod 4294967296"
    unfolding tk using r by (rule be_value_u32be)
  have pk: "\<exists>hdr. length hdr = 12 \<and> sent_of w' c = sent_of w c @ [hdr @ ct @ take 4 nb]"
    if "box buffer nb key = Some ct \<and> length ct + 16 \<le> 8192" for ct
  proof -
    let ?hdr = "take 2 (AUDIO_BUFFER w) @ u16be (next_sequence s)
              @ u32be (next_timestamp t frameSize) @ u32be x"
    have "length ?hdr = 12"
      using assms(2) by (simp add: buffers_allocated_def length_u16be length_u32be)
    moreover have "sent_of w' c = sent_of w c @ [?hdr @ ct @ take 4 nb]"
      using L(4) [of ct] that assms(10) by simp
    ultimately show ?thesis by blast
  qed
  show ?thesis
    using d L(2) assms(10) len tk bv pk by auto
qed

theorem lite_nonce_appended_witness:
  "codec_path True 0 playing_world \<and> buffers_allocated playing_world
   \<and> data_of playing_world 0 = Some data_max \<and> counters_in_range data_max
   \<and> nonce data_max = Some 4294967295
   \<and> (\<exists>cd'. data_of (snd (send_conn tag_box no_random SILENCE 960 True 0 playing_world)) 0
                 = Some cd' \<and> nonce cd' = Some 0)
   \<and> CONNECTION_NONCE (snd (send_conn tag_box no_random SILENCE 960 True 0 playing_world))
       = u32be 0 @ replicate 20 0
   \<and> (\<exists>hdr. length hdr = 12
         \<and> sent_of (snd (send_conn tag_box no_random SILENCE 960 True 0 playing_world)) 0
             = [hdr @ (replicate 16 0 @ SILENCE) @ u32be 0])"
proof -
  have k: "secretKey data_max = Some (replicate 32 0)"
    and n: "(4294967295::int) = (case nonce data_max of None \<Rightarrow> 0 | Some v \<Rightarrow> v)"
    and nv: "nonce data_max = Some 4294967295"
    by (simp_all add: data_max_def)
  have nb: "u32be 0 @ replicate 20 0
      = u32be ((4294967295 + 1) mod 4294967296) @ drop 4 (CONNECTION_NONCE playing_world)"
    by (simp add: playing_world_facts(7))
  have bx: "tag_box SILENCE (u32be 0 @ replicate 20 0) (replicate 32 0)
      = Some (replicate 16 0 @ SILENCE)
      \<and> length (replicate 16 (0::byte) @ SILENCE) + 16 \<le> 8192"
    by (simp add: tag_box_def SILENCE_def)
  have z: "(0::int) \<le> 960" by simp
  from lite_nonce_appended [OF playing_world_facts(1,2,3,4,5) z k n nb refl,
      of tag_box no_random SILENCE] bx
  show ?thesis
    using playing_world_facts nv by (auto simp: length_u32be)
qed

text \<open>No header write throws while the counters are in range.\<close>

lemma counters_in_range_mode:
  "counters_in_range (cd\<lparr>encryption_mode := m\<rparr>) = counters_in_range cd"
  by (simp add: counters_in_range_def)

lemma send_packet_safe:
  assumes net: "networking (conns w c) \<noteq> None" and ba: "buffers_allocated w"
    and rng: "counters_in_range cd" and fs: "0 \<le> fs"
  shows "fst (send_packet box rnd buffer fs c cd w) = None
     \<and> (case data_of (snd (send_packet box rnd buffer fs c cd w)) c of
          None \<Rightarrow> data_of w c = None | Some cd' \<Rightarrow> data_of w c = Some cd' \<or> counters_in_range cd')"
proof (cases "resolve_mode cd")
  case None
  then show ?thesis by (simp add: send_packet_def split: option.split)
next
  case (Some a)
  then obtain m cd1 where rm: "resolve_mode cd = Some (m, cd1)" by (cases a) auto
  have cd1: "cd1 = cd\<lparr>encryption_mode := Some m\<rparr>"
    using resolve_mode_Some [OF rm] by simp
  have r1: "counters_in_range cd1" using rng by (simp add: cd1 counters_in_range_mode)
  show ?thesis
  proof (cases "\<exists>s t x k. sequence cd = Some s \<and> timestamp cd = Some t \<and> ssrc cd = Some x
                  \<and> secretKey cd = Some k")
    case False
    then have "send_packet box rnd buffer fs c cd w = (None, set_data c cd1 w)"
      using rm by (auto simp: send_packet_def Let_def cd1 split: option.split)
    then show ?thesis using net r1 by (simp add: data_of_simps)
  next
    case True
    then obtain s t x k where v: "sequence cd = Some s" "timestamp cd = Some t"
      "ssrc cd = Some x" "secretKey cd = Some k" by blast
    have r: "0 \<le> s" "0 \<le> t" "0 \<le> x" "x \<le> 4294967295" "u32 (nonce cd)"
      using rng v by (simp_all add: counters_in_range_def u16_def u32_def)
    let ?s = "next_sequence s" and ?t = "next_timestamp t fs"
    let ?cd2 = "cd1\<lparr>sequence := Some ?s, timestamp := Some ?t\<rparr>"
    let ?w2 = "set_data c ?cd2 (set_data c cd1 w)"
    have len: "length (AUDIO_BUFFER ?w2) = 8192"
      using ba by (simp add: buffers_allocated_def buffers_primitives)
    have wh: "fst (write_header ?s ?t x ?w2) = None"
      using write_header_ok [of ?s ?t x ?w2] next_sequence_range [OF r(1)]
        next_timestamp_range [OF r(2) fs] r(3,4) len by simp
    obtain w3 where w3: "write_header ?s ?t x ?w2 = (None, w3)"
      using wh by (cases "write_header ?s ?t x ?w2") auto
    have f: "fst (send_packet box rnd buffer fs c cd w) = None"
      using rm v w3 by (simp add: send_packet_def Let_def cd1)
    from send_packet_data [OF net rm v, of box rnd buffer fs]
    obtain cd' where cd': "data_of (snd (send_packet box rnd buffer fs c cd w)) c = Some cd'"
      "sequence cd' = Some ?s" "timestamp cd' = Some ?t" "ssrc cd' = Some x"
      "nonce cd' = nonce cd \<or> (m = LITE \<and> nonce cd' = Some (next_nonce (nonce cd)))"
      by blast
    have "u32 (nonce cd')"
      using cd'(5) r(5) next_nonce_range [OF r(5)] by (auto simp: u32_def)
    then have "counters_in_range cd'"
      using cd'(2,3,4) next_sequence_range [OF r(1)] next_timestamp_range [OF r(2) fs] r(3,4)
      by (simp add: counters_in_range_def u16_def u32_def)
    then show ?thesis using f cd'(1) by simp
  qed
qed

lemma send_conn_safe:
  assumes ba: "buffers_allocated w" and sf: "safe_session w c" and fs: "0 \<le> fs"
  shows "fst (send_conn box rnd buffer fs sil c w) = None
     \<and> safe_session (snd (send_conn box rnd buffer fs sil c w)) c"
proof -
  let ?w1 = "map_conn c (\<lambda>k. k\<lparr>speaking := True\<rparr>) w"
  have d1: "data_of ?w1 c = data_of w c" by (simp add: data_of_simps)
  have sf1: "safe_session ?w1 c" using sf by (simp add: safe_session_def d1)
  have ba1: "buffers_allocated ?w1" using ba by (simp add: ba_primitives)
  show ?thesis
  proof (cases "status (conns w c) = Ready")
    case False
    then show ?thesis using sf by (simp add: send_conn_def)
  next
    case rdy: True
    show ?thesis
    proof (cases "networking (conns ?w1 c)")
      case None
      then show ?thesis using sf1 rdy by (simp add: send_conn_def Let_def)
    next
      case net: (Some net)
      show ?thesis
      proof (cases "connectionData net")
        case None
        then show ?thesis using sf1 rdy net
          by (simp add: send_conn_def Let_def split: option.split)
      next
        case cds: (Some cd)
        show ?thesis
        proof (cases "udp net")
          case None
          then show ?thesis using sf1 rdy net cds
            by (simp add: send_conn_def Let_def split: option.split)
        next
          case us: (Some u)
          have dc: "data_of ?w1 c = Some cd"
            using net cds by (simp add: data_of_def)
          have rng: "counters_in_range cd" using sf1 dc by (simp add: safe_session_def)
          show ?thesis
          proof (cases "external_encrypt ?w1 \<and> \<not> sil")
            case True
            then have "send_conn box rnd buffer fs sil c w = (None, udp_send c buffer ?w1)"
              using rdy net cds us by (simp add: send_conn_def Let_def)
            then show ?thesis using sf1 by (simp add: safe_session_def data_of_simps)
          next
            case False
            then have e: "send_conn box rnd buffer fs sil c w
                = send_packet box rnd buffer fs c cd ?w1"
              using rdy net cds us by (auto simp: send_conn_def Let_def)
            have nn: "networking (conns ?w1 c) \<noteq> None" using net by simp
            from send_packet_safe [OF nn ba1 rng fs, of box rnd buffer]
            show ?thesis using dc rng
              by (auto simp: e safe_session_def split: option.splits)
          qed
        qed
      qed
    qed
  qed
qed

lemma touches_data_other:
  "touches S w w' \<Longrightarrow> c \<notin> S \<Longrightarrow> data_of w' c = data_of w c"
  by (simp add: touches_def data_of_def)

lemma send_conn_safe_other:
  assumes "safe_session w c'" "c' \<noteq> c"
  shows "safe_session (snd (send_conn box rnd buffer fs sil c w)) c'"
proof -
  have "touches {c} w (snd (send_conn box rnd buffer fs sil c w))"
    by (intro tc_send_conn touches_refl) simp
  then have "data_of (snd (send_conn box rnd buffer fs sil c w)) c' = data_of w c'"
    using assms(2) by (intro touches_data_other) auto
  then show ?thesis using assms(1) by (simp add: safe_session_def)
qed

lemma codec_path_cong:
  "conns w' c = conns w c \<Longrightarrow> external_encrypt w' = external_encrypt w
     \<Longrightarrow> codec_path sil c w' = codec_path sil c w"
  by (simp add: codec_path_def data_of_def udp_of_def)

text \<open>After a send on the path of the codec the session is on that path again.\<close>

lemma send_conn_codec_path:
  assumes cp: "codec_path sil c w" and ee: "\<not> (external_encrypt w \<and> \<not> sil')"
  shows "codec_path sil' c (snd (send_conn box rnd buffer fs sil c w))"
proof -
  let ?w' = "snd (send_conn box rnd buffer fs sil c w)"
  obtain cd s t where d: "data_of w c = Some cd" "sequence cd = Some s" "timestamp cd = Some t"
    "ssrc cd \<noteq> None" "secretKey cd \<noteq> None"
    using cp by (elim codec_pathD) auto
  from send_conn_data [OF cp d(1,2,3), of box rnd buffer fs]
  obtain cd' m where cd': "data_of ?w' c = Some cd'" "sequence cd' = Some (next_sequence s)"
    "timestamp cd' = Some (next_timestamp t fs)" "ssrc cd' = ssrc cd"
    "secretKey cd' = secretKey cd" "encryption_mode cd' = Some m" "m \<noteq> 0"
    by blast
  have t: "touches {c} w ?w'" by (intro tc_send_conn touches_refl) simp
  then have st: "status (conns ?w' c) = status (conns w c)"
    and u: "udp_of ?w' c = None \<longleftrightarrow> udp_of w c = None"
    and sp: "same_player w ?w'"
    by (simp_all add: touches_def)
  have ee': "external_encrypt ?w' = external_encrypt w" using sp by (simp add: same_player_iff)
  have rm: "resolve_mode cd' = Some (m, cd')" using cd'(6,7) by (intro resolve_mode_cached)
  show ?thesis
    using cp st u ee ee' cd' d rm by (simp add: codec_path_def)
qed


lemma codec_path_silence:
  "codec_path sil c w \<longleftrightarrow> codec_path True c w \<and> \<not> (external_encrypt w \<and> \<not> sil)"
  by (auto simp: codec_path_def)

text \<open>The loop of \<open>send\<close> over sessions whose counters are in range.\<close>

lemma send_loop_safe:
  assumes "buffers_allocated w" "\<forall>c\<in>S. safe_session w c" "set cs \<subseteq> S" "0 \<le> fs"
  shows "fst (send_loop box rnd buffer fs sil cs w) = None
     \<and> buffers_allocated (snd (send_loop box rnd buffer fs sil cs w))
     \<and> (\<forall>c\<in>S. safe_session (snd (send_loop box rnd buffer fs sil cs w)) c)"
  using assms
proof (induction cs arbitrary: w)
  case Nil
  then show ?case by simp
next
  case (Cons c cs)
  obtain e w1 where s: "send_conn box rnd buffer fs sil c w = (e, w1)"
    by (cases "send_conn box rnd buffer fs sil c w")
  have cS: "c \<in> S" using Cons.prems(3) by simp
  have e: "e = None" and sc: "safe_session w1 c"
    using send_conn_safe [OF Cons.prems(1) _ Cons.prems(4), of c box rnd buffer sil]
      Cons.prems(2) cS s by auto
  have ba1: "buffers_allocated w1"
    using ba_send_conn [OF Cons.prems(1), of box rnd buffer fs sil c] s by simp
  have sf1: "\<forall>c'\<in>S. safe_session w1 c'"
  proof
    fix c' assume c': "c' \<in> S"
    show "safe_session w1 c'"
    proof (cases "c' = c")
      case True
      then show ?thesis using sc by simp
    next
      case False
      then show ?thesis
        using send_conn_safe_other [of w c' c box rnd buffer fs sil] Cons.prems(2) c' s by simp
    qed
  qed
  have "set cs \<subseteq> S" using Cons.prems(3) by simp
  from Cons.IH [OF ba1 sf1 this Cons.prems(4)]
  show ?case using s e by simp
qed

lemma send_loop_untouched:
  assumes "c \<notin> set cs"
  shows "conns (snd (send_loop box rnd buffer fs sil cs w)) c = conns w c"
proof -
  have "touches (set cs) w (snd (send_loop box rnd buffer fs sil cs w))"
    by (intro tc_send_loop touches_refl) simp
  then show ?thesis using assms by (simp add: touches_def)
qed

lemma send_loop_external_encrypt:
  "external_encrypt (snd (send_loop box rnd buffer fs sil cs w)) = external_encrypt w"
  using sp_send_loop [OF same_player_refl, of w box rnd buffer fs sil cs]
  by (simp add: same_player_iff)

lemma send_conn_external_encrypt:
  "external_encrypt (snd (send_conn box rnd buffer fs sil c w)) = external_encrypt w"
  using sp_send_conn [OF same_player_refl, of w box rnd buffer fs sil c]
  by (simp add: same_player_iff)

lemma send_conn_untouched:
  assumes "c' \<noteq> c"
  shows "conns (snd (send_conn box rnd buffer fs sil c w)) c' = conns w c'"
proof -
  have "touches {c} w (snd (send_conn box rnd buffer fs sil c w))"
    by (intro tc_send_conn touches_refl) simp
  then show ?thesis using assms by (simp add: touches_def)
qed

lemma send_loop_sequence:
  assumes "buffers_allocated w" "\<forall>c'\<in>S. safe_session w c'" "set cs \<subseteq> S" "0 \<le> fs"
    and "distinct cs" "c \<in> set cs" "codec_path sil c w"
    and "data_of w c = Some cd" "sequence cd = Some s"
  shows "codec_path True c (snd (send_loop box rnd buffer fs sil cs w))
     \<and> (\<exists>cd'. data_of (snd (send_loop box rnd buffer fs sil cs w)) c = Some cd'
            \<and> sequence cd' = Some (next_sequence s))"
  using assms
proof (induction cs arbitrary: w)
  case Nil
  then show ?case by simp
next
  case (Cons c0 cs)
  obtain e w1 where s: "send_conn box rnd buffer fs sil c0 w = (e, w1)"
    by (cases "send_conn box rnd buffer fs sil c0 w")
  have c0S: "c0 \<in> S" and csS: "set cs \<subseteq> S" using Cons.prems(3) by simp_all
  have e: "e = None"
    using send_conn_safe [OF Cons.prems(1) _ Cons.prems(4), of c0 box rnd buffer sil]
      Cons.prems(2) c0S s by auto
  have lp: "snd (send_loop box rnd buffer fs sil (c0 # cs) w)
      = snd (send_loop box rnd buffer fs sil cs w1)"
    using s e by simp
  have ba1: "buffers_allocated w1"
    using ba_send_conn [OF Cons.prems(1), of box rnd buffer fs sil c0] s by simp
  have ee1: "external_encrypt w1 = external_encrypt w"
    using send_conn_external_encrypt [of box rnd buffer fs sil c0 w] s by simp
  show ?case
  proof (cases "c0 = c")
    case True
    then have notin: "c \<notin> set cs" using Cons.prems(5) by simp
    obtain t where t: "timestamp cd = Some t"
      using Cons.prems(7,8) by (elim codec_pathD) auto
    from send_conn_data [OF Cons.prems(7,8,9) t, of box rnd buffer fs]
    obtain cd' where cd': "data_of w1 c = Some cd'" "sequence cd' = Some (next_sequence s)"
      using s True by auto
    have cp1: "codec_path True c w1"
      using send_conn_codec_path [OF Cons.prems(7), of True box rnd buffer fs] s True by simp
    have same: "conns (snd (send_loop box rnd buffer fs sil cs w1)) c = conns w1 c"
      using notin by (rule send_loop_untouched)
    have "codec_path True c (snd (send_loop box rnd buffer fs sil cs w1))"
      using codec_path_cong [OF same send_loop_external_encrypt] cp1 by simp
    moreover have "data_of (snd (send_loop box rnd buffer fs sil cs w1)) c = data_of w1 c"
      using same by (simp add: data_of_def)
    ultimately show ?thesis using lp cd' by simp
  next
    case False
    then have cin: "c \<in> set cs" using Cons.prems(6) by simp
    have same: "conns w1 c = conns w c"
      using send_conn_untouched [of c c0 box rnd buffer fs sil w] False s by simp
    have cp1: "codec_path sil c w1"
      using codec_path_cong [OF same ee1] Cons.prems(7) by simp
    have d1: "data_of w1 c = Some cd"
      using same Cons.prems(8) by (simp add: data_of_def)
    have sf1: "\<forall>c'\<in>S. safe_session w1 c'"
    proof
      fix c' assume c': "c' \<in> S"
      show "safe_session w1 c'"
      proof (cases "c' = c0")
        case True
        then show ?thesis
          using send_conn_safe [OF Cons.prems(1) _ Cons.prems(4), of c0 box rnd buffer sil]
            Cons.prems(2) c0S s by auto
      next
        case False
        then show ?thesis
          using send_conn_safe_other [of w c' c0 box rnd buffer fs sil] Cons.prems(2) c' s
          by simp
      qed
    qed
    have dc: "distinct cs" using Cons.prems(5) by simp
    from Cons.IH [OF ba1 sf1 csS Cons.prems(4) dc cin cp1 d1 Cons.prems(9)]
    show ?thesis using lp by simp
  qed
qed

lemma trace_update_facts:
  "buffers_allocated (w\<lparr>trace := tr\<rparr>) = buffers_allocated w"
  "safe_session (w\<lparr>trace := tr\<rparr>) c = safe_session w c"
  "codec_path sil c (w\<lparr>trace := tr\<rparr>) = codec_path sil c w"
  "data_of (w\<lparr>trace := tr\<rparr>) c = data_of w c"
  by (simp_all add: buffers_allocated_def safe_session_def codec_path_def data_of_def udp_of_def)

lemma send_subscriptions:
  "subscriptions (snd (send box rnd buffer fs sil w)) = subscriptions w"
  "external_encrypt (snd (send box rnd buffer fs sil w)) = external_encrypt w"
proof -
  let ?w0 = "w\<lparr>trace := trace w @ [SendCall (now w) fs sil]\<rparr>"
  have "same_player ?w0 (snd (send box rnd buffer fs sil w))"
    unfolding send_def by (intro sp_send_loop same_player_refl)
  then show "subscriptions (snd (send box rnd buffer fs sil w)) = subscriptions w"
    "external_encrypt (snd (send box rnd buffer fs sil w)) = external_encrypt w"
    by (simp_all add: same_player_iff)
qed

text \<open>One call of \<open>send\<close>.\<close>

lemma send_safe:
  assumes "buffers_allocated w" "sessions_in_range w" "0 \<le> fs"
  shows "fst (send box rnd buffer fs sil w) = None"
    and "buffers_allocated (snd (send box rnd buffer fs sil w))"
    and "sessions_in_range (snd (send box rnd buffer fs sil w))"
proof -
  let ?w0 = "w\<lparr>trace := trace w @ [SendCall (now w) fs sil]\<rparr>"
  have a: "buffers_allocated ?w0" "\<forall>c\<in>set (subscriptions w). safe_session ?w0 c"
    using assms(1,2) by (simp_all add: trace_update_facts sessions_in_range_def)
  have b: "set (subscriptions ?w0) \<subseteq> set (subscriptions w)" by simp
  from send_loop_safe [OF a b assms(3), of box rnd buffer sil]
  show "fst (send box rnd buffer fs sil w) = None"
    and "buffers_allocated (snd (send box rnd buffer fs sil w))"
    and "sessions_in_range (snd (send box rnd buffer fs sil w))"
    by (simp_all add: send_def sessions_in_range_def send_subscriptions [unfolded send_def])
qed

lemma send_sequence:
  assumes "buffers_allocated w" "sessions_in_range w" "0 \<le> fs"
    and "distinct (subscriptions w)" "c \<in> set (subscriptions w)" "codec_path sil c w"
    and "data_of w c = Some cd" "sequence cd = Some s"
  shows "codec_path True c (snd (send box rnd buffer fs sil w))
     \<and> (\<exists>cd'. data_of (snd (send box rnd buffer fs sil w)) c = Some cd'
            \<and> sequence cd' = Some (next_sequence s))"
proof -
  let ?w0 = "w\<lparr>trace := trace w @ [SendCall (now w) fs sil]\<rparr>"
  have a: "buffers_allocated ?w0" "\<forall>c\<in>set (subscriptions w). safe_session ?w0 c"
    using assms(1,2) by (simp_all add: trace_update_facts sessions_in_range_def)
  have b: "set (subscriptions ?w0) \<subseteq> set (subscriptions w)" by simp
  have c: "distinct (subscriptions ?w0)" "c \<in> set (subscriptions ?w0)"
    "codec_path sil c ?w0" "data_of ?w0 c = Some cd"
    using assms(4-7) by (simp_all add: trace_update_facts)
  from send_loop_sequence [OF a b assms(3) c assms(8), of box rnd buffer]
  show ?thesis by (simp add: send_def)
qed


text \<open>The header stays in place while the payload is encrypted behind it.\<close>

lemma take12_blit: "12 \<le> off \<Longrightarrow> off \<le> length dst \<Longrightarrow> take 12 (blit src off dst) = take 12 dst"
  by (simp add: blit_def)

lemma take12_encrypt_lite:
  "12 \<le> length (AUDIO_BUFFER w) \<Longrightarrow>
     take 12 (AUDIO_BUFFER (encrypt_lite box payload key c cd w)) = take 12 (AUDIO_BUFFER w)"
  unfolding encrypt_lite_def Let_def
  by (auto split: sum.split option.split prod.split
      simp: buffers_primitives secretbox_into_Some buffer_set_Inr take12_blit length_blit)

lemma take12_encrypt_suffix:
  "12 \<le> length (AUDIO_BUFFER w) \<Longrightarrow>
     take 12 (AUDIO_BUFFER (encrypt_suffix box rnd payload key c w)) = take 12 (AUDIO_BUFFER w)"
  unfolding encrypt_suffix_def Let_def
  by (auto split: sum.split option.split prod.split
      simp: buffers_primitives secretbox_into_Some buffer_set_Inr take12_blit length_blit
        randombytes_buf_def)

lemma take12_encrypt_default:
  "12 \<le> length (AUDIO_BUFFER w) \<Longrightarrow>
     take 12 (AUDIO_BUFFER (encrypt_default box payload key c w)) = take 12 (AUDIO_BUFFER w)"
  unfolding encrypt_default_def Let_def
  by (auto split: sum.split option.split prod.split
      simp: buffers_primitives secretbox_into_Some take12_blit)

lemma take12_encrypt_and_send:
  "12 \<le> length (AUDIO_BUFFER w) \<Longrightarrow>
     take 12 (AUDIO_BUFFER (encrypt_and_send box rnd m payload key c cd w))
       = take 12 (AUDIO_BUFFER w)"
  unfolding encrypt_and_send_def
  by (simp add: take12_encrypt_lite take12_encrypt_suffix take12_encrypt_default
      buffers_primitives)

lemma send_conn_header:
  assumes cp: "codec_path sil c w" and ba: "buffers_allocated w"
    and d: "data_of w c = Some cd" and rng: "counters_in_range cd" and fs: "0 \<le> fs"
    and v: "sequence cd = Some s" "timestamp cd = Some t" "ssrc cd = Some x"
  shows "take 12 (AUDIO_BUFFER (snd (send_conn box rnd buffer fs sil c w)))
           = take 2 (AUDIO_BUFFER w) @ u16be (next_sequence s)
               @ u32be (next_timestamp t fs) @ u32be x"
proof -
  obtain m cd1 key where rm: "resolve_mode cd = Some (m, cd1)" and k: "secretKey cd = Some key"
    using cp d by (elim codec_pathD) auto
  let ?w1 = "map_conn c (\<lambda>k. k\<lparr>speaking := True\<rparr>) w"
  have e: "send_conn box rnd buffer fs sil c w = send_packet box rnd buffer fs c cd ?w1"
    using cp d by (rule send_conn_codec)
  have cd1: "cd1 = cd\<lparr>encryption_mode := Some m\<rparr>"
    using resolve_mode_Some [OF rm] by simp
  let ?s = "next_sequence s" and ?t = "next_timestamp t fs"
  let ?cd2 = "cd1\<lparr>sequence := Some ?s, timestamp := Some ?t\<rparr>"
  let ?w2 = "set_data c ?cd2 (set_data c cd1 ?w1)"
  let ?hdr = "blit (u32be x) 8 (blit (u32be ?t) 4 (blit (u16be ?s) 2 (AUDIO_BUFFER w)))"
  have r: "0 \<le> s" "0 \<le> t" "0 \<le> x" "x \<le> 4294967295"
    using rng v by (simp_all add: counters_in_range_def u16_def u32_def)
  have len: "length (AUDIO_BUFFER w) = 8192"
    using ba by (simp add: buffers_allocated_def)
  have ab2: "AUDIO_BUFFER ?w2 = AUDIO_BUFFER w" by (simp add: buffers_primitives)
  have wh: "write_header ?s ?t x ?w2 = (None, ?w2\<lparr>AUDIO_BUFFER := ?hdr\<rparr>)"
    using write_header_ok [of ?s ?t x ?w2] next_sequence_range [OF r(1)]
      next_timestamp_range [OF r(2) fs] r(3,4) len ab2 by simp
  let ?w3 = "?w2\<lparr>AUDIO_BUFFER := ?hdr\<rparr>"
  have sp: "send_packet box rnd buffer fs c cd ?w1 =
      (None, encrypt_and_send box rnd m buffer key c ?cd2 ?w3)"
    using rm v k wh by (simp add: send_packet_def Let_def cd1)
  have lh: "length ?hdr = 8192"
    using len by (simp add: length_blit length_u16be length_u32be)
  have "take 12 (AUDIO_BUFFER (encrypt_and_send box rnd m buffer key c ?cd2 ?w3)) = take 12 ?hdr"
    using take12_encrypt_and_send [of ?w3 box rnd m buffer key c ?cd2] lh by simp
  moreover have "take 12 ?hdr = take 2 (AUDIO_BUFFER w) @ u16be ?s @ u32be ?t @ u32be x"
    using take_header [of "AUDIO_BUFFER w" x ?t ?s] len by simp
  ultimately show ?thesis by (simp add: e sp)
qed

text \<open>Consecutive calls of \<open>send\<close>.\<close>

lemma send_all_sequence:
  assumes "buffers_allocated w" "sessions_in_range w" "distinct (subscriptions w)"
    and "c \<in> set (subscriptions w)" "codec_path True c w"
    and "data_of w c = Some cd" "sequence cd = Some s"
    and "\<forall>(buffer, f, sil)\<in>set frames. 0 \<le> f \<and> \<not> (external_encrypt w \<and> \<not> sil)"
  shows "fst (send_all box rnd frames w) = None
     \<and> (\<exists>cd'. data_of (snd (send_all box rnd frames w)) c = Some cd'
            \<and> sequence cd' = Some ((s + int (length frames)) mod 65536))"
  using assms
proof (induction frames arbitrary: w cd s)
  case Nil
  have "safe_session w c" using Nil.prems(2,4) by (simp add: sessions_in_range_def)
  then have "0 \<le> s \<and> s \<le> 65535"
    using Nil.prems(6,7) by (simp add: safe_session_def counters_in_range_def u16_def)
  then show ?case using Nil.prems(6,7) by simp
next
  case (Cons fr frames)
  obtain buffer f sil where fr: "fr = (buffer, f, sil)" by (cases fr)
  have f0: "0 \<le> f" and ns: "\<not> (external_encrypt w \<and> \<not> sil)"
    using Cons.prems(8) fr by auto
  have cp: "codec_path sil c w"
    using Cons.prems(5) ns codec_path_silence [of sil c w] by simp
  let ?w1 = "snd (send box rnd buffer f sil w)"
  note S = send_safe [OF Cons.prems(1,2) f0, of box rnd buffer sil]
  have sub: "subscriptions ?w1 = subscriptions w" "external_encrypt ?w1 = external_encrypt w"
    by (rule send_subscriptions)+
  from send_sequence [OF Cons.prems(1,2) f0 Cons.prems(3,4) cp Cons.prems(6,7), of box rnd buffer]
  obtain cd1 where cd1: "codec_path True c ?w1" "data_of ?w1 c = Some cd1"
    "sequence cd1 = Some (next_sequence s)"
    by blast
  have "safe_session w c" using Cons.prems(2,4) by (simp add: sessions_in_range_def)
  then have sr: "0 \<le> s" "s \<le> 65535"
    using Cons.prems(6,7) by (simp_all add: safe_session_def counters_in_range_def u16_def)
  have rest: "\<forall>(buffer, f, sil)\<in>set frames. 0 \<le> f \<and> \<not> (external_encrypt ?w1 \<and> \<not> sil)"
    using Cons.prems(8) sub(2) by auto
  have d: "distinct (subscriptions ?w1)" "c \<in> set (subscriptions ?w1)"
    using Cons.prems(3,4) sub(1) by simp_all
  from Cons.IH [OF S(2,3) d cd1 rest]
  obtain cd' where cd': "fst (send_all box rnd frames ?w1) = None"
    "data_of (snd (send_all box rnd frames ?w1)) c = Some cd'"
    "sequence cd' = Some ((next_sequence s + int (length frames)) mod 65536)"
    by blast
  have un: "send_all box rnd (fr # frames) w = send_all box rnd frames ?w1"
    using S(1) fr by (cases "send box rnd buffer f sil w") auto
  have "(next_sequence s + int (length frames)) mod 65536
      = ((s + 1) mod 65536 + int (length frames)) mod 65536"
    by (simp only: next_sequence_mod [OF sr])
  also have "\<dots> = (s + 1 + int (length frames)) mod 65536"
    by (rule mod_add_left_eq)
  also have "s + 1 + int (length frames) = s + int (length (fr # frames))"
    by simp
  finally show ?case using un cd' by simp
qed

lemma wrap_apart:
  fixes s :: int
  assumes "0 \<le> s" "s \<le> 65535" "0 < n" "n < 65536"
  shows "(s + n) mod 65536 \<noteq> s"
proof (cases "s + n < 65536")
  case True
  then have "(s + n) mod 65536 = s + n" using assms by simp
  then show ?thesis using assms by simp
next
  case False
  have "(s + n) mod 65536 = s + n - 65536"
    using False assms by (intro int_mod_pos_eq [of _ _ 1]) simp_all
  then show ?thesis using assms by simp
qed

text \<open>
  Claim C6. Take any list of frames sent one after the other with \<open>send\<close>,
  each going through the codec, to a player whose subscribed sessions are
  distinct and have their counters in range. For a subscribed session on the
  path of the codec whose sequence counter stands at \<open>s\<close>, no send throws and
  the counter ends at \<open>s\<close> plus the number of sends, modulo 65536: never
  negative, one send takes 65535 to 0 and any other value to its successor,
  65536 sends bring the counter back to \<open>s\<close>, and fewer sends (at least one)
  do not. The counter is stepped before the packet leaves: the header that a
  send writes for the session carries the stepped value in its bytes 2 and 3.
\<close>

theorem sequence_period:
  assumes "buffers_allocated w" and "sessions_in_range w" and "distinct (subscriptions w)"
    and "c \<in> set (subscriptions w)" and "codec_path True c w"
    and "data_of w c = Some cd" and "sequence cd = Some s"
    and "\<forall>(buffer, f, sil)\<in>set frames. 0 \<le> f \<and> \<not> (external_encrypt w \<and> \<not> sil)"
  shows "fst (send_all box rnd frames w) = None
     \<and> (\<exists>cd'. data_of (snd (send_all box rnd frames w)) c = Some cd'
          \<and> sequence cd' = Some ((s + int (length frames)) mod 65536)
          \<and> u16 (sequence cd')
          \<and> (length frames = 1 \<longrightarrow> sequence cd' = Some (if s = 65535 then 0 else s + 1))
          \<and> (length frames = 65536 \<longrightarrow> sequence cd' = Some s)
          \<and> (0 < length frames \<and> length frames < 65536 \<longrightarrow> sequence cd' \<noteq> Some s))
     \<and> (\<forall>buffer f sil. 0 \<le> f \<and> \<not> (external_encrypt w \<and> \<not> sil) \<longrightarrow>
          take 2 (drop 2 (AUDIO_BUFFER (snd (send_conn box rnd buffer f sil c w))))
            = u16be ((s + 1) mod 65536)
          \<and> be_value (u16be ((s + 1) mod 65536)) = (s + 1) mod 65536)"
proof -
  have "safe_session w c" using assms(2,4) by (simp add: sessions_in_range_def)
  then have rng: "counters_in_range cd" using assms(6) by (simp add: safe_session_def)
  then have sr: "0 \<le> s" "s \<le> 65535"
    using assms(7) by (simp_all add: counters_in_range_def u16_def)
  from send_all_sequence [OF assms, of box rnd]
  obtain cd' where cd': "fst (send_all box rnd frames w) = None"
    "data_of (snd (send_all box rnd frames w)) c = Some cd'"
    "sequence cd' = Some ((s + int (length frames)) mod 65536)"
    by blast
  have a: "u16 (sequence cd')" using cd'(3) by (simp add: u16_def)
  have b: "sequence cd' = Some (if s = 65535 then 0 else s + 1)" if "length frames = 1"
    using that cd'(3) sr by simp
  have c: "sequence cd' = Some s" if "length frames = 65536"
    using that cd'(3) sr by simp
  have d: "sequence cd' \<noteq> Some s" if "0 < length frames \<and> length frames < 65536"
    using that cd'(3) wrap_apart [OF sr, of "int (length frames)"] by simp
  have h: "take 2 (drop 2 (AUDIO_BUFFER (snd (send_conn box rnd buffer f sil c w))))
            = u16be ((s + 1) mod 65536)
          \<and> be_value (u16be ((s + 1) mod 65536)) = (s + 1) mod 65536"
    if "0 \<le> f \<and> \<not> (external_encrypt w \<and> \<not> sil)" for buffer f sil
  proof -
    have cp: "codec_path sil c w"
      using assms(5) that codec_path_silence [of sil c w] by simp
    obtain t x where v: "timestamp cd = Some t" "ssrc cd = Some x"
      using cp assms(6) by (elim codec_pathD) auto
    have f0: "0 \<le> f" using that by simp
    let ?ab = "AUDIO_BUFFER (snd (send_conn box rnd buffer f sil c w))"
    have "take 12 ?ab = take 2 (AUDIO_BUFFER w) @ u16be (next_sequence s)
               @ u32be (next_timestamp t f) @ u32be x"
      using send_conn_header [OF cp assms(1,6) rng f0 assms(7) v] .
    moreover have "take 2 (drop 2 ?ab) = take 2 (drop 2 (take 12 ?ab))"
      by (simp add: drop_take)
    moreover have "length (take 2 (AUDIO_BUFFER w)) = 2"
      using assms(1) by (simp add: buffers_allocated_def)
    ultimately have "take 2 (drop 2 ?ab) = u16be (next_sequence s)"
      by (simp add: length_u16be)
    moreover have "be_value (u16be ((s + 1) mod 65536)) = (s + 1) mod 65536"
      by (intro be_value_u16be) simp_all
    ultimately show ?thesis using next_sequence_mod [OF sr] by simp
  qed
  show ?thesis
    using cd' a b c d h by (intro conjI exI [of _ cd'] allI impI) blast+
qed

lemma playing_world_sessions:
  "sessions_in_range playing_world" "distinct (subscriptions playing_world)"
  "0 \<in> set (subscriptions playing_world)" "\<not> external_encrypt playing_world"
  using playing_world_facts(3,4)
  by (simp_all add: sessions_in_range_def safe_session_def)
     (simp_all add: playing_world_def new_player_def)

theorem sequence_period_witness:
  "buffers_allocated playing_world \<and> sessions_in_range playing_world
   \<and> distinct (subscriptions playing_world) \<and> 0 \<in> set (subscriptions playing_world)
   \<and> codec_path True 0 playing_world \<and> data_of playing_world 0 = Some data_max
   \<and> sequence data_max = Some 65535
   \<and> fst (send_all tag_box no_random (replicate 65536 (SILENCE, 960, True)) playing_world) = None
   \<and> (\<exists>cd'. data_of (snd (send_all tag_box no_random (replicate 65536 (SILENCE, 960, True))
                              playing_world)) 0 = Some cd'
          \<and> sequence cd' = Some 65535)
   \<and> (\<exists>cd'. data_of (snd (send_all tag_box no_random [(SILENCE, 960, True)] playing_world)) 0
                = Some cd'
          \<and> sequence cd' = Some 0)"
proof -
  have s: "sequence data_max = Some 65535" by (simp add: data_max_def)
  have f1: "\<forall>(buffer, f, sil)\<in>set (replicate 65536 (SILENCE, 960::int, True)).
      0 \<le> f \<and> \<not> (external_encrypt playing_world \<and> \<not> sil)"
    by simp
  have f2: "\<forall>(buffer, f, sil)\<in>set [(SILENCE, 960::int, True)].
      0 \<le> f \<and> \<not> (external_encrypt playing_world \<and> \<not> sil)"
    by simp
  note A = sequence_period [OF playing_world_facts(2) playing_world_sessions(1,2,3)
      playing_world_facts(1,3) s f1, of tag_box no_random]
  note B = sequence_period [OF playing_world_facts(2) playing_world_sessions(1,2,3)
      playing_world_facts(1,3) s f2, of tag_box no_random]
  have "\<exists>cd'. data_of (snd (send_all tag_box no_random (replicate 65536 (SILENCE, 960, True))
                              playing_world)) 0 = Some cd'
          \<and> sequence cd' = Some 65535"
    using A by auto
  moreover have "\<exists>cd'. data_of (snd (send_all tag_box no_random [(SILENCE, 960, True)]
                              playing_world)) 0 = Some cd'
          \<and> sequence cd' = Some 0"
    using B by auto
  ultimately show ?thesis
    using A playing_world_facts(1,2,3) playing_world_sessions(1,2,3) s by blast
qed

section \<open>Properties of the player\<close>

lemmas map_conn_fields = sp_map_conn [OF same_player_refl, unfolded same_player_iff]
lemmas udp_send_fields = sp_udp_send [OF same_player_refl, unfolded same_player_iff]

lemma restore_from_box_fields:
  assumes "restore_from_box w = Inr w'"
  shows "same_player w w'"
  using assms unfolding restore_from_box_def
  by (auto split: option.splits sum.splits if_splits prod.splits intro!: sp_set_data same_player_refl)

lemma start_silence_frames_cases:
  "start_silence_frames w = w
   \<or> start_silence_frames w = w\<lparr>silence_frames_needed := False\<rparr>
   \<or> (\<exists>w2. same_player (w\<lparr>silence_frames_needed := False\<rparr>) w2
         \<and> start_silence_frames w = w2\<lparr>silence_frames_interval := Some (now w2 + 20)\<rparr>)"
proof (cases "\<not> silence_frames_needed w \<or> silence_frames_interval w \<noteq> None")
  case True
  then show ?thesis by (simp add: start_silence_frames_def)
next
  case False
  let ?w1 = "w\<lparr>silence_frames_needed := False\<rparr>"
  show ?thesis
  proof (cases "player ?w1 \<noteq> None \<and> external_encrypt ?w1 \<and> secretbox_ready ?w1")
    case ext: True
    show ?thesis
    proof (cases "restore_from_box ?w1")
      case (Inl e)
      then have "start_silence_frames w = ?w1"
        using False ext by (simp add: start_silence_frames_def Let_def)
      then show ?thesis by simp
    next
      case (Inr w2)
      then have "start_silence_frames w = w2\<lparr>silence_frames_interval := Some (now w2 + 20)\<rparr>"
        using False ext by (simp add: start_silence_frames_def Let_def)
      moreover have "same_player ?w1 w2" using Inr by (rule restore_from_box_fields)
      ultimately show ?thesis by blast
    qed
  next
    case noext: False
    then have "start_silence_frames w = ?w1\<lparr>silence_frames_interval := Some (now ?w1 + 20)\<rparr>"
      using False by (auto simp: start_silence_frames_def Let_def)
    moreover have "same_player ?w1 ?w1" by (rule same_player_refl)
    ultimately show ?thesis by blast
  qed
qed

lemma start_silence_frames_fields:
  "player (start_silence_frames w) = player w"
  "trace (start_silence_frames w) = trace w"
  "track (start_silence_frames w) = track w"
  "last_error (start_silence_frames w) = last_error w"
  "subscriptions (start_silence_frames w) = subscriptions w"
  "now (start_silence_frames w) = now w"
  "external_encrypt (start_silence_frames w) = external_encrypt w"
  "external_packet_send (start_silence_frames w) = external_packet_send w"
  "silence_frames_left (start_silence_frames w) = silence_frames_left w"
  using start_silence_frames_cases [of w]
  by (auto simp: same_player_iff)

lemma destroy_player_fields:
  "player (destroy_player w) = None"
  "trace (destroy_player w) = trace w"
  "track (destroy_player w) = track w"
  "last_error (destroy_player w) = last_error w"
  "subscriptions (destroy_player w) = subscriptions w"
  "now (destroy_player w) = now w"
  "external_encrypt (destroy_player w) = external_encrypt w"
  "external_packet_send (destroy_player w) = external_packet_send w"
  by (simp_all add: destroy_player_def start_silence_frames_fields split: option.split)

lemma emit_fields:
  "player (emit ev w) = player w"
  "trace (emit ev w) = trace w @ [Emitted ev]"
  "track (emit ev w) = track w"
  "last_error (emit ev w) = last_error w"
  "subscriptions (emit ev w) = subscriptions w"
  "now (emit ev w) = now w"
  "conns (emit ev w) = conns w"
  "external_encrypt (emit ev w) = external_encrypt w"
  "external_packet_send (emit ev w) = external_packet_send w"
  by (simp_all add: emit_def)



text \<open>
  Claim C4. With external encryption enabled and a subscription already there,
  \<open>subscribe\<close> throws the Unsupported error for every session, and the state is
  the state before the call: the subscription list is the same and no listener
  has been added to the session.
\<close>

theorem subscribe_second_unsupported:
  assumes "external_encrypt w" and "subscriptions w \<noteq> []"
  shows "(\<exists>m. fst (subscribe c w) = Inl (UnsupportedError m))
     \<and> snd (subscribe c w) = w
     \<and> subscriptions (snd (subscribe c w)) = subscriptions w
     \<and> listeners (conns (snd (subscribe c w)) c) = listeners (conns w c)"
  using assms by (simp add: subscribe_def)

theorem subscribe_second_unsupported_witness:
  "external_encrypt (playing_world\<lparr>external_encrypt := True\<rparr>)
   \<and> subscriptions (playing_world\<lparr>external_encrypt := True\<rparr>) = [0]
   \<and> fst (subscribe 1 (playing_world\<lparr>external_encrypt := True\<rparr>))
       = Inl (UnsupportedError
           ''Cannot subscribe to multiple connections when external encryption is enabled'')
   \<and> snd (subscribe 1 (playing_world\<lparr>external_encrypt := True\<rparr>))
       = playing_world\<lparr>external_encrypt := True\<rparr>"
proof -
  have s: "subscriptions (playing_world\<lparr>external_encrypt := True\<rparr>) = [0]"
    by (simp add: playing_world_def)
  have a: "external_encrypt (playing_world\<lparr>external_encrypt := True\<rparr>)"
    and b: "subscriptions (playing_world\<lparr>external_encrypt := True\<rparr>) \<noteq> []"
    using s by simp_all
  from subscribe_second_unsupported [OF a b, of 1]
  show ?thesis using s by (simp add: subscribe_def)
qed

text \<open>The track is left alone by everything but \<open>onerror\<close> itself.\<close>

lemma set_ffplayer_fields:
  "track (set_ffplayer ff w) = track w"
  "trace (set_ffplayer ff w) = trace w"
  "subscriptions (set_ffplayer ff w) = subscriptions w"
  "conns (set_ffplayer ff w) = conns w"
  "now (set_ffplayer ff w) = now w"
  "external_encrypt (set_ffplayer ff w) = external_encrypt w"
  "external_packet_send (set_ffplayer ff w) = external_packet_send w"
  by (simp_all add: set_ffplayer_def)

lemma track_setup_secretbox: "track (snd (setup_secretbox ff w)) = track w"
  unfolding setup_secretbox_def Let_def
  by (auto split: sum.split option.split prod.split simp: set_ffplayer_fields)

lemma track_cleanup: "track (cleanup w) = track w"
  by (simp add: cleanup_def destroy_player_fields)

lemma track_init_secretbox: "track (init_secretbox w) = track w"
proof -
  have a: "track (emit ev (cleanup w1)) = track w1" for ev w1
    by (simp add: emit_fields track_cleanup)
  have b: "track w1 = track w" if "setup_secretbox ff w = (e, w1)" for ff e w1
    using track_setup_secretbox [of ff w] that by simp
  show ?thesis
    unfolding init_secretbox_def Let_def
    by (auto split: option.split prod.split simp: a b set_ffplayer_fields)
qed

lemma track_create_player: "track (create_player ctor st w) = track w"
  unfolding create_player_def Let_def
  by (auto split: sum.split option.split
      simp: emit_fields destroy_player_fields track_init_secretbox)

lemma load_streams_begin_facts:
  "track (snd (load_streams_begin w)) = track w"
  "player (snd (load_streams_begin w)) = player w"
  "fst (load_streams_begin w) = UseCached ss \<Longrightarrow>
     \<exists>tr. track w = Some tr \<and> streams tr = Some ss \<and> \<not> expired ss"
  "track w = Some tr \<Longrightarrow> has_getStreams tr \<Longrightarrow> streams tr = None \<Longrightarrow>
     fst (load_streams_begin w) = AwaitGetStreams"
  by (auto simp: load_streams_begin_def emit_fields split: option.splits if_splits)

lemma start_begin_facts:
  "track (snd (start_begin w)) = track w"
  "player (snd (start_begin w)) = player w"
  "fst (start_begin w) = UseCached ss \<Longrightarrow>
     \<exists>tr. track w = Some tr \<and> streams tr = Some ss \<and> \<not> expired ss"
  "track w = Some tr \<Longrightarrow> has_getStreams tr \<Longrightarrow> streams tr = None \<Longrightarrow> player w \<noteq> None \<Longrightarrow>
     fst (start_begin w) = AwaitGetStreams"
  using load_streams_begin_facts [of w]
  by (auto simp: start_begin_def split: if_splits)

text \<open>
  Claim C10. When the error handler classifies a playback error as transient,
  \<open>onerror\<close> sets \<open>track.streams\<close> to undefined and only then creates the new
  decode engine and starts it: the track of the resulting state has no cached
  streams, the restarted \<open>load_streams\<close> never takes a cached collection, and it
  asks the track for its streams whenever the engine was created and the track
  has \<open>getStreams\<close>. When the error is fatal the track and its cache are as
  before and nothing is restarted.
\<close>

theorem onerror_discards_streams:
  "(\<not> fst (error e retryable w) \<longrightarrow>
      track (snd (onerror ctor e retryable w))
        = map_option (\<lambda>tr. tr\<lparr>streams := None\<rparr>) (track w)
      \<and> (\<forall>ss. snd (fst (onerror ctor e retryable w)) \<noteq> UseCached ss)
      \<and> (\<exists>w2. track w2 = map_option (\<lambda>tr. tr\<lparr>streams := None\<rparr>) (track w)
            \<and> onerror ctor e retryable w =
                (case start_begin (create_player ctor
                        (Some (case player w of None \<Rightarrow> 0 | Some p \<Rightarrow> cur_time p)) w2) of
                   (step, w4) \<Rightarrow> ((False, step), w4)))
      \<and> (\<forall>tr. track w = Some tr \<and> has_getStreams tr
               \<and> player (snd (onerror ctor e retryable w)) \<noteq> None
             \<longrightarrow> snd (fst (onerror ctor e retryable w)) = AwaitGetStreams))
   \<and> (fst (error e retryable w) \<longrightarrow>
        track (snd (onerror ctor e retryable w)) = track w
        \<and> fst (onerror ctor e retryable w) = (True, NotStarted))"
proof (cases "fst (error e retryable w)")
  case True
  then have e: "error e retryable w =
      (True, emit (ErrorEvent (InternalError (thrown_message e ''Unknown playback error'')))
               (destroy_player w))"
    by (auto simp: error_def split: if_splits)
  show ?thesis
    using True by (simp add: onerror_def e emit_fields destroy_player_fields)
next
  case False
  then have e: "error e retryable w = (False, w\<lparr>last_error := now w\<rparr>)"
    by (auto simp: error_def split: if_splits)
  let ?w1 = "w\<lparr>last_error := now w\<rparr>"
  let ?w2 = "case track ?w1 of None \<Rightarrow> ?w1
             | Some tr \<Rightarrow> ?w1\<lparr>track := Some (tr\<lparr>streams := None\<rparr>)\<rparr>"
  let ?st = "case player w of None \<Rightarrow> 0 | Some p \<Rightarrow> cur_time p"
  let ?w3 = "create_player ctor (Some ?st) ?w2"
  have t2: "track ?w2 = map_option (\<lambda>tr. tr\<lparr>streams := None\<rparr>) (track w)"
    by (cases "track w") simp_all
  have p2: "player ?w2 = player w"
    by (cases "track w") simp_all
  have o: "onerror ctor e retryable w =
      (case start_begin ?w3 of (step, w4) \<Rightarrow> ((False, step), w4))"
    by (cases "track w") (simp_all add: onerror_def e Let_def)
  have t3: "track ?w3 = map_option (\<lambda>tr. tr\<lparr>streams := None\<rparr>) (track w)"
    using t2 by (simp add: track_create_player)
  obtain step w4 where sb: "start_begin ?w3 = (step, w4)" by (cases "start_begin ?w3")
  have w4: "track w4 = track ?w3" "player w4 = player ?w3"
    using start_begin_facts(1,2) [of ?w3] sb by simp_all
  have os: "snd (onerror ctor e retryable w) = w4"
    and of': "snd (fst (onerror ctor e retryable w)) = step"
    unfolding o sb by simp_all
  have a: "track (snd (onerror ctor e retryable w))
        = map_option (\<lambda>tr. tr\<lparr>streams := None\<rparr>) (track w)"
    unfolding os using w4 t3 by simp
  have b: "snd (fst (onerror ctor e retryable w)) \<noteq> UseCached ss" for ss
  proof
    assume "snd (fst (onerror ctor e retryable w)) = UseCached ss"
    then have "fst (start_begin ?w3) = UseCached ss" unfolding of' using sb by simp
    from start_begin_facts(3) [OF this]
    obtain tr where "track ?w3 = Some tr" "streams tr = Some ss" by blast
    then show False unfolding t3 by (cases "track w") auto
  qed
  have c: "snd (fst (onerror ctor e retryable w)) = AwaitGetStreams"
    if h: "track w = Some tr \<and> has_getStreams tr
        \<and> player (snd (onerror ctor e retryable w)) \<noteq> None" for tr
  proof -
    have "player w4 \<noteq> None" using h unfolding os by simp
    then have p3: "player ?w3 \<noteq> None" unfolding w4 .
    have t3': "track ?w3 = Some (tr\<lparr>streams := None\<rparr>)" unfolding t3 using h by simp
    have "fst (start_begin ?w3) = AwaitGetStreams"
      using t3' _ _ p3 by (rule start_begin_facts(4)) (use h in simp_all)
    then show ?thesis unfolding of' using sb by simp
  qed
  have d: "\<exists>w2. track w2 = map_option (\<lambda>tr. tr\<lparr>streams := None\<rparr>) (track w)
            \<and> onerror ctor e retryable w =
                (case start_begin (create_player ctor
                        (Some (case player w of None \<Rightarrow> 0 | Some p \<Rightarrow> cur_time p)) w2) of
                   (step, w4) \<Rightarrow> ((False, step), w4))"
    using t2 o by (intro exI [of _ ?w2] conjI)
  have c': "\<forall>tr. track w = Some tr \<and> has_getStreams tr
               \<and> player (snd (onerror ctor e retryable w)) \<noteq> None
             \<longrightarrow> snd (fst (onerror ctor e retryable w)) = AwaitGetStreams"
    using c by blast
  have b': "\<forall>ss. snd (fst (onerror ctor e retryable w)) \<noteq> UseCached ss"
    using b by blast
  show ?thesis
    using False by (intro conjI impI a b' c' d) simp_all
qed

theorem onerror_discards_streams_witness:
  "\<not> fst (error NoValue (Some True) mid_track)
   \<and> track (snd (onerror (Inr engine) NoValue (Some True) mid_track))
       = Some (cached_track\<lparr>streams := None\<rparr>)
   \<and> fst (error NoValue (Some False) mid_track)
   \<and> track (snd (onerror (Inr engine) NoValue (Some False) mid_track)) = Some cached_track"
proof -
  have f: "track mid_track = Some cached_track" "now mid_track = 1700000000000"
    "last_error mid_track = 0"
    by (simp_all add: mid_track_def playing_world_def new_player_def)
  have a: "\<not> fst (error NoValue (Some True) mid_track)"
    and b: "fst (error NoValue (Some False) mid_track)"
    by (simp_all add: error_def f ERROR_INTERVAL_def)
  from onerror_discards_streams [of NoValue "Some True" mid_track "Inr engine"] a
  have 1: "track (snd (onerror (Inr engine) NoValue (Some True) mid_track))
       = Some (cached_track\<lparr>streams := None\<rparr>)"
    by (simp add: f)
  from onerror_discards_streams [of NoValue "Some False" mid_track "Inr engine"] b
  have 2: "track (snd (onerror (Inr engine) NoValue (Some False) mid_track)) = Some cached_track"
    by (simp add: f)
  show ?thesis using a b 1 2 by simp
qed

section \<open>Properties of the keepalive\<close>



























section \<open>Properties of the session\<close>








end
